theory Spec2Isabelle
  imports Complex_Main
begin

section \<open>Errors and the result type\<close>

text \<open>
  The height-field generation of \<^verbatim>\<open>generation.py\<close> raises in a handful of
  places. Every raise is a value of \<open>error\<close>; a stage returns \<open>error + 'a\<close>, with
  \<open>Inl\<close> for the raise.

  \<^item> \<open>Exception msg\<close> is the source's \<^verbatim>\<open>raise Exception(msg)\<close> (the error kind
    that the specification calls ConfigError);
  \<^item> \<open>KeyError k\<close> is a dictionary lookup \<^verbatim>\<open>config[k]\<close> of an absent key;
  \<^item> \<open>NameError n\<close> is the evaluation of a name that no scope binds;
  \<^item> \<open>IndexError\<close> is an index outside an array or list;
  \<^item> \<open>ZeroDivisionError\<close> is a division of plain Python numbers by zero.
\<close>

datatype error =
    Exception string
  | KeyError string
  | NameError string
  | IndexError
  | ZeroDivisionError

fun rbind :: "error + 'a \<Rightarrow> ('a \<Rightarrow> error + 'b) \<Rightarrow> error + 'b" where
  "rbind (Inl e) f = Inl e"
| "rbind (Inr x) f = f x"

text \<open>
  A \<^verbatim>\<open>for x in xs: body\<close> loop over a state: the body runs on every element in
  order and the first raise leaves the loop.
\<close>

fun for_each :: "'a list \<Rightarrow> ('a \<Rightarrow> 's \<Rightarrow> error + 's) \<Rightarrow> 's \<Rightarrow> error + 's" where
  "for_each [] body s = Inr s"
| "for_each (x # xs) body s = rbind (body x s) (for_each xs body)"

text \<open>A list comprehension \<^verbatim>\<open>[f(x) for x in xs]\<close> whose element expression may raise.\<close>

fun map_err :: "('a \<Rightarrow> error + 'b) \<Rightarrow> 'a list \<Rightarrow> error + 'b list" where
  "map_err f [] = Inr []"
| "map_err f (x # xs) = rbind (f x) (\<lambda>y. rbind (map_err f xs) (\<lambda>ys. Inr (y # ys)))"

text \<open>\<^verbatim>\<open>range(n)\<close>: empty for \<open>n \<le> 0\<close>.\<close>

definition py_range :: "int \<Rightarrow> int list" where
  "py_range n = map int [0..<nat n]"

section \<open>The height map\<close>

text \<open>
  \<^verbatim>\<open>self.heightmap\<close> is a two-dimensional numpy array of shape
  \<^verbatim>\<open>[width, height]\<close>: \<^verbatim>\<open>heightmap[i]\<close> is a row of \<^verbatim>\<open>height\<close> cells.
  It is modelled as a list of rows. The cells are 64-bit floats in the source and
  rationals here: the stages below only compare cells, count them, and average small
  integers, and the quotients \<open>(k+1)/n\<close> are ordered the same way in both.

  Indexing follows Python: a negative index counts from the end, and an index outside
  the array raises \<open>IndexError\<close>.
\<close>

type_synonym heightmap = "rat list list"

definition py_index :: "nat \<Rightarrow> int \<Rightarrow> error + nat" where
  "py_index n i =
     (let j = (if i < 0 then int n + i else i)
      in if 0 \<le> j \<and> j < int n then Inr (nat j) else Inl IndexError)"

definition py_get :: "'a list \<Rightarrow> int \<Rightarrow> error + 'a" where
  "py_get xs i = rbind (py_index (length xs) i) (\<lambda>k. Inr (xs ! k))"

definition py_set :: "'a list \<Rightarrow> int \<Rightarrow> 'a \<Rightarrow> error + 'a list" where
  "py_set xs i v = rbind (py_index (length xs) i) (\<lambda>k. Inr (xs[k := v]))"

definition hm_get :: "heightmap \<Rightarrow> int \<Rightarrow> int \<Rightarrow> error + rat" where
  "hm_get hm i j = rbind (py_get hm i) (\<lambda>row. py_get row j)"

definition hm_set :: "heightmap \<Rightarrow> int \<Rightarrow> int \<Rightarrow> rat \<Rightarrow> error + heightmap" where
  "hm_set hm i j v =
     rbind (py_get hm i) (\<lambda>row.
     rbind (py_set row j v) (\<lambda>row'.
     py_set hm i row'))"

text \<open>\<^verbatim>\<open>np.zeros([w, h])\<close>.\<close>

definition zeros :: "nat \<Rightarrow> nat \<Rightarrow> heightmap" where
  "zeros w h = replicate w (replicate h 0)"

text \<open>
  \<^verbatim>\<open>np.ndenumerate(a)\<close> visits the index pairs of \<open>a\<close> in row-major order.
  \<open>ndindex\<close> is the list of index pairs, \<open>ndenumerate\<close> the materialised list
  \<^verbatim>\<open>list(np.ndenumerate(a))\<close> of index pairs with their values.
\<close>

definition ndindex :: "heightmap \<Rightarrow> (int \<times> int) list" where
  "ndindex hm =
     concat (map (\<lambda>(i, row). map (\<lambda>j. (int i, int j)) [0..<length row]) (enumerate 0 hm))"

definition ndenumerate :: "heightmap \<Rightarrow> ((int \<times> int) \<times> rat) list" where
  "ndenumerate hm =
     concat (map (\<lambda>(i, row). map (\<lambda>(j, x). ((int i, int j), x)) (enumerate 0 row))
                 (enumerate 0 hm))"

text \<open>An array of shape \<open>[w, h]\<close>.\<close>

definition has_shape :: "nat \<Rightarrow> nat \<Rightarrow> heightmap \<Rightarrow> bool" where
  "has_shape w h hm \<longleftrightarrow> length hm = w \<and> list_all (\<lambda>row. length row = h) hm"

section \<open>The configuration\<close>

text \<open>
  \<^verbatim>\<open>self.config\<close> is the dictionary read from the \<^verbatim>\<open>generation\<close> section of the
  JSON scenario. The code looks up four keys. A field is \<open>None\<close> when the key is absent.
  The value of \<^verbatim>\<open>thresholds\<close> may also be JSON \<^verbatim>\<open>null\<close>, which the code tests
  for (\<^verbatim>\<open>thresholds is None\<close>): \<open>Some None\<close>. The values are otherwise taken to
  have the type the code uses them at (integers, a list of numbers).
\<close>

record config =
  cfg_seed :: "int option"
  cfg_iterations :: "int option"
  cfg_thresholds :: "rat list option option"
  cfg_erosion :: "int option"

section \<open>Percentiles\<close>

text \<open>
  \<^verbatim>\<open>__calc_percentiles\<close>. The list of cells is materialised and sorted by value
  before the first write (\<^verbatim>\<open>sorted\<close> is stable, as \<open>sort_key\<close> is). The loop
  carries \<^verbatim>\<open>last_percentile\<close> and \<^verbatim>\<open>last_value\<close>, which are both
  \<^verbatim>\<open>None\<close> before the first iteration and both set at the end of every iteration:
  one optional pair \<open>(last_percentile, last_value)\<close>.
\<close>

definition percentile_step ::
  "nat \<Rightarrow> nat \<times> ((int \<times> int) \<times> rat) \<Rightarrow> heightmap \<times> (rat \<times> rat) option
     \<Rightarrow> error + heightmap \<times> (rat \<times> rat) option" where
  "percentile_step n = (\<lambda>(k, ((i, j), v)) (hm, last).
     let curr_percentile = (of_nat k + 1) / of_nat n;
         curr_percentile =
           (case last of
              None \<Rightarrow> curr_percentile
            | Some (last_percentile, last_value) \<Rightarrow>
                if v = last_value then last_percentile else curr_percentile)
     in rbind (hm_set hm i j curr_percentile) (\<lambda>hm'.
        Inr (hm', Some (curr_percentile, v))))"

definition calc_percentiles :: "heightmap \<Rightarrow> error + heightmap" where
  "calc_percentiles hm =
     (let arr_as_srtd_lst = sort_key snd (ndenumerate hm)
      in rbind (for_each (enumerate 0 arr_as_srtd_lst)
                  (percentile_step (length arr_as_srtd_lst)) (hm, None))
           (\<lambda>(hm', last). Inr hm'))"

section \<open>Groups\<close>

text \<open>
  \<^verbatim>\<open>__calc_groups\<close>. \<open>find_group x ts k\<close> is the inner loop over
  \<^verbatim>\<open>enumerate(thresholds)\<close> from position \<open>k\<close> on: \<open>Some k\<close> when it leaves by
  \<^verbatim>\<open>break\<close> at index \<open>k\<close>, \<open>None\<close> when it runs to the end
  (\<^verbatim>\<open>groupFound\<close> still false).
\<close>

fun find_group :: "rat \<Rightarrow> rat list \<Rightarrow> nat \<Rightarrow> nat option" where
  "find_group x [] k = None"
| "find_group x (t # ts) k = (if x < t then Some k else find_group x ts (Suc k))"

definition group_cell :: "rat list \<Rightarrow> int \<times> int \<Rightarrow> heightmap \<Rightarrow> error + heightmap" where
  "group_cell thresholds = (\<lambda>(i, j) hm.
     rbind (hm_get hm i j) (\<lambda>x.
     case find_group x thresholds 0 of
       Some k \<Rightarrow> hm_set hm i j (of_nat k)
     | None \<Rightarrow> hm_set hm i j (of_nat (length thresholds))))"

definition calc_groups :: "config \<Rightarrow> heightmap \<Rightarrow> error + heightmap" where
  "calc_groups cfg hm =
     (case cfg_thresholds cfg of
        None \<Rightarrow> Inl (KeyError ''thresholds'')
      | Some None \<Rightarrow> Inl (Exception ''The config parameter 'thresholds' must be set.'')
      | Some (Some thresholds) \<Rightarrow> for_each (ndindex hm) (group_cell thresholds) hm)"

section \<open>Erosion\<close>

text \<open>
  \<^verbatim>\<open>__get_neighbors\<close>: the 3x3 neighbourhood of \<open>pt\<close> with its weights, in the
  order of the source, filtered to the shape.
\<close>

definition get_neighbors :: "int \<times> int \<Rightarrow> int \<times> int \<Rightarrow> ((int \<times> int) \<times> int) list" where
  "get_neighbors pt shape =
     (case pt of (x, y) \<Rightarrow> case shape of (w, h) \<Rightarrow>
        filter (\<lambda>((a, b), wt). a \<ge> 0 \<and> a < w \<and> b \<ge> 0 \<and> b < h)
          [((x - 1, y), 1), ((x - 1, y - 1), 1), ((x - 1, y + 1), 1),
           ((x, y), 2), ((x, y - 1), 1), ((x, y + 1), 1),
           ((x + 1, y), 1), ((x + 1, y - 1), 1), ((x + 1, y + 1), 1)])"

text \<open>
  \<^verbatim>\<open>round(x)\<close> with one argument: the nearest integer, a tie going to the even
  neighbour.
\<close>

definition py_round :: "rat \<Rightarrow> int" where
  "py_round q =
     (let f = \<lfloor>q\<rfloor>; d = q - of_int f
      in if d < 1 / 2 then f
         else if 1 / 2 < d then f + 1
         else if even f then f else f + 1)"

text \<open>
  \<^verbatim>\<open>__smooth\<close> holds two references to arrays, \<^verbatim>\<open>self.heightmap\<close> and the
  local \<^verbatim>\<open>hm_copy\<close>, which name the same array before the first round and after
  the last statement of every round. Which cells a round reads therefore depends on
  what the two names refer to, and the model keeps a store: \<open>arrays\<close> maps an address
  to the array stored there, \<open>fresh\<close> is the next unused address, and the two names
  hold addresses. \<^verbatim>\<open>np.copy\<close> allocates.
\<close>

record smooth_state =
  arrays :: "nat \<Rightarrow> heightmap"
  fresh :: nat
  self_heightmap :: nat
  hm_copy :: nat

text \<open>\<^verbatim>\<open>hm_copy = np.copy(self.heightmap)\<close>\<close>

definition np_copy :: "smooth_state \<Rightarrow> smooth_state" where
  "np_copy s =
     s\<lparr>arrays := (arrays s)(fresh s := arrays s (self_heightmap s)),
       hm_copy := fresh s,
       fresh := Suc (fresh s)\<rparr>"

text \<open>The body of the two inner loops, for the cell \<open>(i, j)\<close>.\<close>

definition smooth_cell :: "nat \<Rightarrow> nat \<Rightarrow> int \<Rightarrow> int \<Rightarrow> smooth_state \<Rightarrow> error + smooth_state" where
  "smooth_cell width height i j s =
     (let neighbors = get_neighbors (i, j) (int width, int height)
      in rbind (map_err (\<lambda>((k, l), w).
                   rbind (hm_get (arrays s (self_heightmap s)) k l) (\<lambda>x. Inr (x * of_int w)))
                 neighbors) (\<lambda>vals.
         let sum_weights = sum_list (map (\<lambda>((k, l), w). w) neighbors)
         in if sum_weights = 0 then Inl ZeroDivisionError
            else rbind (hm_set (arrays s (hm_copy s)) i j
                          (of_int (py_round (sum_list vals / of_int sum_weights)))) (\<lambda>a.
                 Inr (s\<lparr>arrays := (arrays s)(hm_copy s := a)\<rparr>))))"

text \<open>One pass of the loop over \<^verbatim>\<open>m\<close>.\<close>

definition smooth_round :: "nat \<Rightarrow> nat \<Rightarrow> smooth_state \<Rightarrow> error + smooth_state" where
  "smooth_round width height s =
     rbind (for_each (py_range (int width))
              (\<lambda>i. for_each (py_range (int height)) (\<lambda>j. smooth_cell width height i j))
              (np_copy s))
       (\<lambda>s'. Inr (s'\<lparr>self_heightmap := hm_copy s'\<rparr>))"

text \<open>
  \<^verbatim>\<open>__smooth\<close> on a store that holds the height map at address 0; the result is
  the array that \<^verbatim>\<open>self.heightmap\<close> names at the end.
\<close>

definition smooth :: "nat \<Rightarrow> nat \<Rightarrow> config \<Rightarrow> heightmap \<Rightarrow> error + heightmap" where
  "smooth width height cfg hm =
     (let s = \<lparr>arrays = (\<lambda>a. [])(0 := hm), fresh = 1, self_heightmap = 0, hm_copy = 0\<rparr>
      in rbind (case cfg_erosion cfg of
                  None \<Rightarrow> Inr s
                | Some erosion \<Rightarrow> for_each (py_range erosion) (\<lambda>m. smooth_round width height) s)
           (\<lambda>s'. Inr (arrays s' (self_heightmap s'))))"

section \<open>Raw generation\<close>

text \<open>
  The source draws from numpy's process-wide generator. Its state is a value of a type
  \<open>'g\<close> that is threaded through the calls, and the three numpy functions the code
  calls are parameters: \<^verbatim>\<open>np.random.seed\<close>, \<^verbatim>\<open>np.random.random\<close> and
  \<^verbatim>\<open>np.random.randint\<close>. The definitions assume nothing about what they
  return; a theorem that needs \<^verbatim>\<open>randint(0, 4)\<close> to be in range says so. The
  line parameters are floating-point numbers in the source and rationals here; the
  theorems about the fault algorithm hold for every line and every side.
\<close>

record 'g np_random =
  rnd_seed :: "int \<Rightarrow> 'g"
  rnd_random :: "'g \<Rightarrow> rat \<times> 'g"
  rnd_randint :: "int \<Rightarrow> int \<Rightarrow> 'g \<Rightarrow> int \<times> 'g"

text \<open>\<^verbatim>\<open>np.random.rand(w, h)\<close> fills a new array with successive draws, row by row.\<close>

fun rand_row :: "'g np_random \<Rightarrow> nat \<Rightarrow> 'g \<Rightarrow> rat list \<times> 'g" where
  "rand_row R 0 g = ([], g)"
| "rand_row R (Suc n) g =
     (let (x, g1) = rnd_random R g; (xs, g2) = rand_row R n g1 in (x # xs, g2))"

fun rand :: "'g np_random \<Rightarrow> nat \<Rightarrow> nat \<Rightarrow> 'g \<Rightarrow> heightmap \<times> 'g" where
  "rand R 0 h g = ([], g)"
| "rand R (Suc w) h g =
     (let (row, g1) = rand_row R h g; (rows, g2) = rand R w h g1 in (row # rows, g2))"

datatype comparator = Lt | Le | Gt | Ge

fun comp_apply :: "comparator \<Rightarrow> rat \<Rightarrow> rat \<Rightarrow> bool" where
  "comp_apply Lt a b \<longleftrightarrow> a < b"
| "comp_apply Le a b \<longleftrightarrow> a \<le> b"
| "comp_apply Gt a b \<longleftrightarrow> a > b"
| "comp_apply Ge a b \<longleftrightarrow> a \<ge> b"

text \<open>\<^verbatim>\<open>__get_y\<close>\<close>

definition get_y :: "rat \<times> rat \<Rightarrow> int \<Rightarrow> rat" where
  "get_y s x = fst s * of_int x + snd s"

text \<open>
  \<^verbatim>\<open>__random_straight\<close>. Inside the method the bare name \<^verbatim>\<open>__MODIFIER\<close> is
  mangled to \<^verbatim>\<open>_LinearFaultStrategy__MODIFIER\<close> and looked up as a local, then a
  global, then a builtin; the class attribute of that name is in none of these scopes
  (it would be reached through \<^verbatim>\<open>self\<close>). The branch for equal x-values
  therefore raises \<open>NameError\<close> at the first evaluation of the name, in the
  condition of the inner \<^verbatim>\<open>if\<close>.
\<close>

definition random_straight ::
  "'g np_random \<Rightarrow> nat \<Rightarrow> nat \<Rightarrow> 'g \<Rightarrow> error + (rat \<times> rat) \<times> 'g" where
  "random_straight R width height g =
     (let (r1, g1) = rnd_random R g;
          (r2, g2) = rnd_random R g1;
          (x1, y1) = (r1 * of_nat width, r2 * of_nat height);
          (r3, g3) = rnd_random R g2;
          (r4, g4) = rnd_random R g3;
          (x2, y2) = (r3 * of_nat width, r4 * of_nat height)
      in if x1 = x2 then Inl (NameError ''_LinearFaultStrategy__MODIFIER'')
         else let a = (y1 - y2) / (x1 - x2);
                  b = y1 - a * x1
              in Inr ((a, b), g4))"

text \<open>The body of the loops over \<open>i\<close> and \<open>j\<close> of \<^verbatim>\<open>LinearFaultStrategy._generate_raw\<close>.\<close>

definition fault_cell :: "comparator \<Rightarrow> rat \<Rightarrow> int \<Rightarrow> int \<Rightarrow> heightmap \<Rightarrow> error + heightmap" where
  "fault_cell cmp y i j hm =
     rbind (hm_get hm i j) (\<lambda>curr.
     if comp_apply cmp y (of_int j) then hm_set hm i j (curr + 1) else Inr hm)"

text \<open>One pass of the loop over \<open>k\<close>.\<close>

definition fault_iteration ::
  "'g np_random \<Rightarrow> nat \<Rightarrow> nat \<Rightarrow> heightmap \<times> 'g \<Rightarrow> error + heightmap \<times> 'g" where
  "fault_iteration R width height = (\<lambda>(hm, g).
     rbind (random_straight R width height g) (\<lambda>(s, g1).
     let (r, g2) = rnd_randint R 0 4 g1
     in rbind (py_get [Lt, Le, Gt, Ge] r) (\<lambda>cmp.
        rbind (for_each (py_range (int width))
                 (\<lambda>i. let y = get_y s i
                      in for_each (py_range (int height)) (\<lambda>j. fault_cell cmp y i j))
                 hm) (\<lambda>hm'.
        Inr (hm', g2)))))"

definition linear_fault_generate_raw ::
  "'g np_random \<Rightarrow> nat \<Rightarrow> nat \<Rightarrow> config \<Rightarrow> 'g \<Rightarrow> error + heightmap \<times> 'g" where
  "linear_fault_generate_raw R width height cfg g =
     (case cfg_iterations cfg of
        None \<Rightarrow> Inl (Exception ''Config parameter 'iterations' missing for linear fault generator'')
      | Some n \<Rightarrow>
          for_each (py_range n) (\<lambda>k. fault_iteration R width height) (zeros width height, g))"

section \<open>The pipeline\<close>

text \<open>
  The three classes: the base class, whose \<^verbatim>\<open>_generate_raw\<close> gives zeros, and
  its two subclasses.
\<close>

datatype strategy = GenerationStrategy | RandomStrategy | LinearFaultStrategy

definition generate_raw ::
  "'g np_random \<Rightarrow> strategy \<Rightarrow> nat \<Rightarrow> nat \<Rightarrow> config \<Rightarrow> 'g \<Rightarrow> error + heightmap \<times> 'g" where
  "generate_raw R strat width height cfg g =
     (case strat of
        GenerationStrategy \<Rightarrow> Inr (zeros width height, g)
      | RandomStrategy \<Rightarrow> Inr (rand R width height g)
      | LinearFaultStrategy \<Rightarrow> linear_fault_generate_raw R width height cfg g)"

text \<open>The constructor seeds the generator when the configuration has a seed.\<close>

definition init :: "'g np_random \<Rightarrow> config \<Rightarrow> 'g \<Rightarrow> 'g" where
  "init R cfg g = (case cfg_seed cfg of None \<Rightarrow> g | Some seed \<Rightarrow> rnd_seed R seed)"

text \<open>
  Construction followed by \<^verbatim>\<open>generate()\<close>; the result is the
  \<^verbatim>\<open>heightmap\<close> attribute of the object returned.
\<close>

definition generate ::
  "'g np_random \<Rightarrow> strategy \<Rightarrow> nat \<Rightarrow> nat \<Rightarrow> config \<Rightarrow> 'g \<Rightarrow> error + heightmap" where
  "generate R strat width height cfg g0 =
     rbind (generate_raw R strat width height cfg (init R cfg g0)) (\<lambda>(hm, g).
     rbind (calc_percentiles hm) (\<lambda>hm.
     rbind (calc_groups cfg hm) (\<lambda>hm.
     smooth width height cfg hm)))"

section \<open>Auxiliary definitions for the proofs\<close>

text \<open>The array with the cell \<open>(i, j)\<close> replaced, for indices inside the array.\<close>

definition cell_update :: "heightmap \<Rightarrow> nat \<Rightarrow> nat \<Rightarrow> rat \<Rightarrow> heightmap" where
  "cell_update hm i j v = hm[i := (hm ! i)[j := v]]"

text \<open>The index pairs that the nested loops over \<^verbatim>\<open>range(width)\<close> and
  \<^verbatim>\<open>range(height)\<close> visit, in order.\<close>

definition grid :: "nat \<Rightarrow> nat \<Rightarrow> (int \<times> int) list" where
  "grid w h = concat (map (\<lambda>i. map (\<lambda>j. (int i, int j)) [0..<h]) [0..<w])"

text \<open>
  The grouping rule in the words of the specification: \<open>g\<close> is the index of the first
  threshold that \<open>x\<close> is strictly less than, or the number of thresholds when there is
  none.
\<close>

definition group_of_spec :: "rat \<Rightarrow> rat list \<Rightarrow> nat \<Rightarrow> bool" where
  "group_of_spec x ts g \<longleftrightarrow>
     list_all (\<lambda>t. \<not> x < t) (take g ts) \<and> (if g < length ts then x < ts ! g else g = length ts)"

text \<open>
  A generator for the examples: its state counts the draws, \<^verbatim>\<open>random()\<close> replays a
  given list of numbers cyclically.
\<close>

definition replay_rng :: "rat list \<Rightarrow> nat np_random" where
  "replay_rng draws =
     \<lparr>rnd_seed = (\<lambda>seed. nat \<bar>seed\<bar>),
      rnd_random = (\<lambda>g. (draws ! (g mod length draws), Suc g)),
      rnd_randint = (\<lambda>lo hi g. (lo + int g mod (hi - lo), Suc g))\<rparr>"

definition example_config :: config where
  "example_config =
     \<lparr>cfg_seed = None, cfg_iterations = None,
      cfg_thresholds = Some (Some [3 / 10, 6 / 10, 1]), cfg_erosion = None\<rparr>"

text \<open>
  The rank of a value in a field, as a fraction: the number of cells that are strictly
  smaller, plus one, over the number of cells.
\<close>

definition percentile_of :: "heightmap \<Rightarrow> rat \<Rightarrow> rat" where
  "percentile_of hm v =
     (of_nat (length (filter (\<lambda>x. x < v) (concat hm))) + 1) / of_nat (length (concat hm))"

text \<open>
  The erosion round as a function of the field it starts from: \<open>neighbor_average\<close>
  is the quotient that the body of the loops computes for the cell \<open>(i, j)\<close>, read
  from \<open>hm\<close> alone, and \<open>erode\<close> the field of the rounded quotients.
\<close>

definition neighbor_average :: "nat \<Rightarrow> nat \<Rightarrow> heightmap \<Rightarrow> nat \<Rightarrow> nat \<Rightarrow> rat" where
  "neighbor_average w h hm i j =
     (let neighbors = get_neighbors (int i, int j) (int w, int h)
      in sum_list (map (\<lambda>((k, l), wt). hm ! nat k ! nat l * of_int wt) neighbors)
           / of_int (sum_list (map (\<lambda>((k, l), wt). wt) neighbors)))"

definition erode :: "nat \<Rightarrow> nat \<Rightarrow> heightmap \<Rightarrow> heightmap" where
  "erode w h hm =
     map (\<lambda>i. map (\<lambda>j. of_int (py_round (neighbor_average w h hm i j))) [0..<h]) [0..<w]"

text \<open>
  The weighted average in the words of the specification: the cells among the eight
  around \<open>(i, j)\<close> that lie inside the field count once, the centre counts twice,
  and the divisor is the sum of the weights present.
\<close>

definition surrounding :: "nat \<Rightarrow> nat \<Rightarrow> nat \<Rightarrow> nat \<Rightarrow> (nat \<times> nat) list" where
  "surrounding w h i j =
     [(nat k, nat l).
        k \<leftarrow> [int i - 1, int i, int i + 1], l \<leftarrow> [int j - 1, int j, int j + 1],
        (k, l) \<noteq> (int i, int j), 0 \<le> k \<and> k < int w \<and> 0 \<le> l \<and> l < int h]"

definition weighted_average_spec :: "nat \<Rightarrow> nat \<Rightarrow> heightmap \<Rightarrow> nat \<Rightarrow> nat \<Rightarrow> rat" where
  "weighted_average_spec w h hm i j =
     (sum_list (map (\<lambda>(k, l). hm ! k ! l) (surrounding w h i j)) + 2 * hm ! i ! j)
       / of_nat (length (surrounding w h i j) + 2)"

text \<open>A 5x5 field for the examples of the erosion.\<close>

definition corner_example :: heightmap where
  "corner_example =
     [[1, 2, 0, 0, 0], [2, 2, 0, 0, 0], [0, 0, 0, 0, 0], [0, 0, 0, 0, 0], [0, 0, 0, 0, 0]]"

text \<open>The draws replayed in the examples of the fault algorithm.\<close>

definition example_draws :: "rat list" where
  "example_draws = [3 / 10, 0, 7 / 10, 4 / 10, 1 / 10, 8 / 10, 5 / 10, 2 / 10, 9 / 10, 6 / 10]"

text \<open>
  What numpy documents of \<^verbatim>\<open>np.random.randint(0, 4)\<close>: the result is an
  integer from 0 to 3.
\<close>

definition randint_in_range :: "'g np_random \<Rightarrow> bool" where
  "randint_in_range R \<longleftrightarrow>
     (\<forall>g. 0 \<le> fst (rnd_randint R 0 4 g) \<and> fst (rnd_randint R 0 4 g) < 4)"

text \<open>A field of shape \<open>[w, h]\<close> whose cells are integers from 0 to \<open>L\<close>.\<close>

definition group_field :: "nat \<Rightarrow> nat \<Rightarrow> int \<Rightarrow> heightmap \<Rightarrow> bool" where
  "group_field w h L hm \<longleftrightarrow>
     has_shape w h hm \<and> (\<forall>i<w. \<forall>j<h. \<exists>m. hm ! i ! j = of_int m \<and> 0 \<le> m \<and> m \<le> L)"

section \<open>Indexing and loops\<close>


lemma py_index_nat: "i < n \<Longrightarrow> py_index n (int i) = Inr i"
  by (simp add: py_index_def)

lemma py_get_nat: "i < length xs \<Longrightarrow> py_get xs (int i) = Inr (xs ! i)"
  by (simp add: py_get_def py_index_nat)

lemma py_set_nat: "i < length xs \<Longrightarrow> py_set xs (int i) v = Inr (xs[i := v])"
  by (simp add: py_set_def py_index_nat)

lemma has_shape_row: "has_shape w h hm \<Longrightarrow> i < w \<Longrightarrow> length (hm ! i) = h"
  by (simp add: has_shape_def list_all_length)

lemma has_shape_length: "has_shape w h hm \<Longrightarrow> length hm = w"
  by (simp add: has_shape_def)

lemma hm_get_nat:
  "has_shape w h hm \<Longrightarrow> i < w \<Longrightarrow> j < h \<Longrightarrow> hm_get hm (int i) (int j) = Inr (hm ! i ! j)"
  by (simp add: hm_get_def py_get_nat has_shape_row has_shape_length)

lemma hm_set_nat:
  "has_shape w h hm \<Longrightarrow> i < w \<Longrightarrow> j < h \<Longrightarrow>
   hm_set hm (int i) (int j) v = Inr (cell_update hm i j v)"
  by (simp add: hm_set_def py_get_nat py_set_nat has_shape_row has_shape_length cell_update_def)

lemma has_shape_cell_update:
  "has_shape w h hm \<Longrightarrow> has_shape w h (cell_update hm i j v)"
  by (cases "i < length hm")
     (auto simp: has_shape_def cell_update_def list_all_length nth_list_update)

lemma nth_cell_update:
  "has_shape w h hm \<Longrightarrow> i < w \<Longrightarrow> j < h \<Longrightarrow> i' < w \<Longrightarrow>
   cell_update hm i j v ! i' ! j' = (if i' = i \<and> j' = j then v else hm ! i' ! j')"
  by (auto simp: has_shape_def cell_update_def list_all_length nth_list_update)

lemma for_each_append:
  "for_each (xs @ ys) body s = rbind (for_each xs body s) (for_each ys body)"
proof (induction xs arbitrary: s)
  case Nil
  show ?case by simp
next
  case (Cons x xs)
  show ?case by (cases "body x s") (simp_all add: Cons.IH)
qed

lemma for_each_invariant_aux:
  assumes "I pre s"
    and "\<And>p x q t. pre @ post = p @ x # q \<Longrightarrow> I p t \<Longrightarrow> \<exists>t'. body x t = Inr t' \<and> I (p @ [x]) t'"
  shows "\<exists>s'. for_each post body s = Inr s' \<and> I (pre @ post) s'"
  using assms
proof (induction post arbitrary: pre s)
  case Nil
  then show ?case by simp
next
  case (Cons x post)
  from Cons.prems(2)[of pre x post s] Cons.prems(1)
  obtain t where t: "body x s = Inr t" "I (pre @ [x]) t" by auto
  have "\<exists>s'. for_each post body t = Inr s' \<and> I ((pre @ [x]) @ post) s'"
  proof (rule Cons.IH[OF t(2)])
    fix p y q u
    assume "(pre @ [x]) @ post = p @ y # q" "I p u"
    then show "\<exists>t'. body y u = Inr t' \<and> I (p @ [y]) t'"
      using Cons.prems(2)[of p y q u] by simp
  qed
  then show ?case using t by simp
qed

lemma for_each_invariant:
  assumes "I [] s"
    and "\<And>p x q t. xs = p @ x # q \<Longrightarrow> I p t \<Longrightarrow> \<exists>t'. body x t = Inr t' \<and> I (p @ [x]) t'"
  shows "\<exists>s'. for_each xs body s = Inr s' \<and> I xs s'"
  using for_each_invariant_aux[of I "[]" s xs body] assms by simp

lemma for_each_map_state: "for_each (map f xs) body s = for_each xs (\<lambda>x. body (f x)) s"
proof (induction xs arbitrary: s)
  case Nil show ?case by simp
next
  case (Cons x xs) show ?case by (cases "body (f x) s") (simp_all add: Cons.IH)
qed

lemma for_each_map: "for_each (map f xs) body = for_each xs (\<lambda>x. body (f x))"
  by (rule ext) (rule for_each_map_state)

lemma for_each_concat:
  "for_each (concat xss) body s = for_each xss (\<lambda>xs. for_each xs body) s"
proof (induction xss arbitrary: s)
  case Nil show ?case by simp
next
  case (Cons xs xss)
  show ?case by (cases "for_each xs body s") (simp_all add: for_each_append Cons.IH)
qed

lemma for_each_nested:
  "for_each (py_range (int w)) (\<lambda>i. for_each (py_range (int h)) (body i)) s
   = for_each (grid w h) (\<lambda>(i, j). body i j) s"
  by (simp add: grid_def py_range_def for_each_concat for_each_map)

lemma grid_product:
  "grid w h = map (\<lambda>(i, j). (int i, int j)) (List.product [0..<w] [0..<h])"
  by (simp add: grid_def product_concat_map map_concat comp_def)

lemma distinct_grid: "distinct (grid w h)"
  unfolding grid_product
  by (auto simp: distinct_map distinct_product inj_on_def)

lemma set_grid: "set (grid w h) = {(int i, int j) | i j. i < w \<and> j < h}"
  by (auto simp: grid_def)

lemma ndindex_grid: "has_shape w h hm \<Longrightarrow> ndindex hm = grid w h"
proof -
  assume a: "has_shape w h hm"
  have "map (\<lambda>(i, row). map (\<lambda>j. (int i, int j)) [0..<length row]) (enumerate 0 hm)
      = map (\<lambda>i. map (\<lambda>j. (int i, int j)) [0..<h]) [0..<w]"
    using a by (auto intro!: nth_equalityI simp: nth_enumerate_eq has_shape_def list_all_length)
  then show ?thesis by (simp add: ndindex_def grid_def)
qed

lemma for_each_cellwise:
  assumes shape: "has_shape w h hm"
    and ps: "distinct ps" "set ps \<subseteq> set (grid w h)"
    and body: "\<And>i j t. i < w \<Longrightarrow> j < h \<Longrightarrow> has_shape w h t \<Longrightarrow>
                 body (int i, int j) t = Inr (cell_update t i j (f i j (t ! i ! j)))"
  shows "\<exists>hm'. for_each ps body hm = Inr hm' \<and> has_shape w h hm' \<and>
           (\<forall>i<w. \<forall>j<h. hm' ! i ! j =
              (if (int i, int j) \<in> set ps then f i j (hm ! i ! j) else hm ! i ! j))"
proof -
  let ?I = "\<lambda>p t. has_shape w h t \<and>
           (\<forall>i<w. \<forall>j<h. t ! i ! j =
              (if (int i, int j) \<in> set p then f i j (hm ! i ! j) else hm ! i ! j))"
  have "\<exists>s'. for_each ps body hm = Inr s' \<and> ?I ps s'"
  proof (rule for_each_invariant)
    show "?I [] hm" using shape by simp
  next
    fix p x q t
    assume split: "ps = p @ x # q" and inv: "?I p t"
    from split ps obtain i j where x: "x = (int i, int j)" "i < w" "j < h"
      by (auto simp: set_grid)
    from split ps(1) have notin: "x \<notin> set p" by auto
    have b: "body x t = Inr (cell_update t i j (f i j (t ! i ! j)))"
      using body[OF x(2,3)] inv x(1) by simp
    have tij: "t ! i ! j = hm ! i ! j" using inv notin x by auto
    have "?I (p @ [x]) (cell_update t i j (f i j (t ! i ! j)))"
      using inv x notin tij
      by (auto simp: has_shape_cell_update nth_cell_update)
    with b show "\<exists>t'. body x t = Inr t' \<and> ?I (p @ [x]) t'" by blast
  qed
  then show ?thesis by blast
qed

section \<open>Grouping\<close>

lemma find_group_Some:
  "find_group x ts k = Some m \<Longrightarrow>
     k \<le> m \<and> m - k < length ts \<and> x < ts ! (m - k) \<and> list_all (\<lambda>t. \<not> x < t) (take (m - k) ts)"
proof (induction ts arbitrary: k)
  case Nil
  then show ?case by simp
next
  case (Cons t ts)
  show ?case
  proof (cases "x < t")
    case True
    with Cons.prems show ?thesis by simp
  next
    case False
    with Cons.prems have "find_group x ts (Suc k) = Some m" by simp
    from Cons.IH[OF this] have ih: "Suc k \<le> m" "m - Suc k < length ts"
      "x < ts ! (m - Suc k)" "list_all (\<lambda>t. \<not> x < t) (take (m - Suc k) ts)"
      by simp_all
    from ih(1) have mk: "m - k = Suc (m - Suc k)" by simp
    from ih False show ?thesis unfolding mk by simp
  qed
qed

lemma find_group_None: "find_group x ts k = None \<Longrightarrow> list_all (\<lambda>t. \<not> x < t) ts"
  by (induction ts arbitrary: k) (auto split: if_splits)

lemma find_group_spec:
  "group_of_spec x ts (case find_group x ts 0 of Some k \<Rightarrow> k | None \<Rightarrow> length ts)"
proof (cases "find_group x ts 0")
  case None
  then show ?thesis using find_group_None[of x ts 0] by (simp add: group_of_spec_def)
next
  case (Some m)
  then show ?thesis using find_group_Some[of x ts 0 m] by (simp add: group_of_spec_def)
qed

lemma group_cell_update:
  assumes "i < w" "j < h" "has_shape w h t"
  shows "group_cell ts (int i, int j) t =
     Inr (cell_update t i j
       (of_nat (case find_group (t ! i ! j) ts 0 of Some k \<Rightarrow> k | None \<Rightarrow> length ts)))"
  using assms by (simp add: group_cell_def hm_get_nat hm_set_nat split: option.split)

lemma calc_groups_cells:
  assumes "cfg_thresholds cfg = Some (Some ts)" and "has_shape w h hm"
  shows "\<exists>hm'. calc_groups cfg hm = Inr hm' \<and> has_shape w h hm' \<and>
     (\<forall>i<w. \<forall>j<h. hm' ! i ! j =
        of_nat (case find_group (hm ! i ! j) ts 0 of Some k \<Rightarrow> k | None \<Rightarrow> length ts))"
proof -
  have "\<exists>hm'. for_each (grid w h) (group_cell ts) hm = Inr hm' \<and> has_shape w h hm' \<and>
           (\<forall>i<w. \<forall>j<h. hm' ! i ! j =
              (if (int i, int j) \<in> set (grid w h)
               then of_nat (case find_group (hm ! i ! j) ts 0 of Some k \<Rightarrow> k | None \<Rightarrow> length ts)
               else hm ! i ! j))"
    by (rule for_each_cellwise[OF assms(2) distinct_grid subset_refl]) (rule group_cell_update)
  then show ?thesis
    using assms by (auto simp: calc_groups_def ndindex_grid set_grid)
qed

text \<open>
  C7. For every cell value \<open>x\<close> and every thresholds list, the grouping stage assigns
  the index of the first threshold that \<open>x\<close> is strictly less than, and the number of
  thresholds when no threshold exceeds \<open>x\<close>: on a field of any shape the stage
  returns, keeps the shape, and every cell holds the group of its old value. The
  witness is the scenario of the claim: with thresholds \<open>[0.5]\<close> a cell of value
  exactly \<open>0.5\<close> goes to the overflow group 1.
\<close>

theorem grouper_first_exceeding_threshold:
  assumes "cfg_thresholds cfg = Some (Some ts)" and "has_shape w h hm"
  shows "\<exists>hm'. calc_groups cfg hm = Inr hm' \<and> has_shape w h hm' \<and>
           (\<forall>i<w. \<forall>j<h. \<exists>g. hm' ! i ! j = of_nat g \<and> group_of_spec (hm ! i ! j) ts g)"
  using calc_groups_cells[OF assms] find_group_spec by blast

theorem grouper_first_exceeding_threshold_witness:
  "has_shape 1 1 [[1 / 2]] \<and>
   calc_groups (example_config\<lparr>cfg_thresholds := Some (Some [1 / 2])\<rparr>) [[1 / 2]] = Inr [[1]] \<and>
   group_of_spec (1 / 2) [1 / 2] 1 \<and> \<not> group_of_spec (1 / 2) [1 / 2] 0"
proof -
  have s: "has_shape 1 1 [[1 / 2]]" by (simp add: has_shape_def)
  have c: "cfg_thresholds (example_config\<lparr>cfg_thresholds := Some (Some [1 / 2])\<rparr>) = Some (Some [1 / 2])"
    by simp
  from grouper_first_exceeding_threshold[OF c s]
  obtain hm' g where r: "calc_groups (example_config\<lparr>cfg_thresholds := Some (Some [1 / 2])\<rparr>) [[1 / 2]] = Inr hm'"
    "has_shape 1 1 hm'" "hm' ! 0 ! 0 = of_nat g" "group_of_spec (1 / 2) [1 / 2] g"
    by fastforce
  have g: "g = 1" using r(4) by (cases g) (simp_all add: group_of_spec_def)
  from r(2) obtain row where "hm' = [row]" by (cases hm') (auto simp: has_shape_def)
  moreover with r(2) obtain c where "row = [c]" by (cases row) (auto simp: has_shape_def)
  ultimately have "hm' = [[1]]" using r(3) g by simp
  with s r(1) show ?thesis by (simp add: group_of_spec_def)
qed

section \<open>The 2x2 scenario\<close>

text \<open>
  The field \<open>[[1,2],[2,3]]\<close> with thresholds \<open>[0.3, 0.6, 1.0]\<close>. The sorted cells
  are 1, 2, 2, 3: the first cell of value 2 is at position 1 and gets \<open>2/4\<close>, the
  second inherits it. The cell of value 3 gets percentile 1, which is not strictly less
  than the last threshold 1.0, so it goes to the overflow group 3.
\<close>

text \<open>
  C1 (counterexample). Neither the percentiles nor the group indices of the claim are
  what the code computes.
\<close>

theorem scenario_2x2_counterexample:
  "calc_percentiles [[1, 2], [2, 3]] \<noteq> Inr [[1 / 4, 3 / 4], [3 / 4, 1]] \<and>
   rbind (calc_percentiles [[1, 2], [2, 3]]) (calc_groups example_config) \<noteq> Inr [[0, 1], [1, 2]]"
  by code_simp

text \<open>
  C1 (as amended). For the 2x2 field with raw values \<open>[[1,2],[2,3]]\<close> and thresholds
  \<open>[0.3, 0.6, 1.0]\<close>, the percentile stage produces \<open>[[0.25, 0.5],[0.5, 1.0]]\<close>
  (both cells of value 2 receiving the percentile 0.5 of the first of them), and the
  grouping stage then produces the group indices \<open>[[0,1],[1,3]]\<close>.
\<close>

theorem scenario_2x2:
  "calc_percentiles [[1, 2], [2, 3]] = Inr [[1 / 4, 1 / 2], [1 / 2, 1]] \<and>
   calc_groups example_config [[1 / 4, 1 / 2], [1 / 2, 1]] = Inr [[0, 1], [1, 3]] \<and>
   rbind (calc_percentiles [[1, 2], [2, 3]]) (calc_groups example_config) = Inr [[0, 1], [1, 3]]"
  by code_simp

section \<open>Percentiles in closed form\<close>

lemma map_snd_ndenumerate: "map snd (ndenumerate hm) = concat hm"
proof -
  have row: "map (snd \<circ> (\<lambda>(j, y). ((i, int j), y))) (enumerate 0 row) = row"
    for i and row :: "rat list"
    by (rule nth_equalityI) (simp_all add: nth_enumerate_eq)
  have "map (\<lambda>p. map snd ((\<lambda>(i, row). map (\<lambda>(j, x). ((int i, int j), x)) (enumerate 0 row)) p))
          (enumerate 0 hm) = hm"
    by (rule nth_equalityI) (simp_all add: nth_enumerate_eq row)
  then show ?thesis
    by (simp add: ndenumerate_def map_concat comp_def)
qed

lemma set_ndenumerate:
  assumes "has_shape w h hm"
  shows "set (ndenumerate hm) = {((int i, int j), hm ! i ! j) | i j. i < w \<and> j < h}"
proof -
  have len: "length hm = w" and row: "\<And>i. i < w \<Longrightarrow> length (hm ! i) = h"
    using assms by (simp_all add: has_shape_length has_shape_row)
  show ?thesis
  proof (intro set_eqI iffI)
    fix e assume "e \<in> set (ndenumerate hm)"
    then obtain i r j x where "(i, r) \<in> set (enumerate 0 hm)" "(j, x) \<in> set (enumerate 0 r)"
      "e = ((int i, int j), x)"
      by (auto simp: ndenumerate_def)
    then show "e \<in> {((int i, int j), hm ! i ! j) | i j. i < w \<and> j < h}"
      using len row by (auto simp: in_set_enumerate_eq)
  next
    fix e assume "e \<in> {((int i, int j), hm ! i ! j) | i j. i < w \<and> j < h}"
    then obtain i j where e: "e = ((int i, int j), hm ! i ! j)" "i < w" "j < h" by auto
    then have "(i, hm ! i) \<in> set (enumerate 0 hm)" "(j, hm ! i ! j) \<in> set (enumerate 0 (hm ! i))"
      using len row by (auto simp: in_set_enumerate_eq)
    then show "e \<in> set (ndenumerate hm)"
      unfolding ndenumerate_def e(1) by (auto intro!: bexI[of _ "(i, hm ! i)"] image_eqI[of _ _ "(j, hm ! i ! j)"])
  qed
qed

lemma sorted_filter_less_take:
  assumes "sorted (map f xs)" and "k < length xs"
    and "k = 0 \<or> f (xs ! (k - 1)) < f (xs ! k)"
  shows "filter (\<lambda>e. f e < f (xs ! k)) xs = take k xs"
proof -
  have mono: "\<And>a b. a \<le> b \<Longrightarrow> b < length xs \<Longrightarrow> f (xs ! a) \<le> f (xs ! b)"
    using assms(1) by (auto simp: sorted_iff_nth_mono)
  have low: "\<forall>e \<in> set (take k xs). f e < f (xs ! k)"
  proof
    fix e assume "e \<in> set (take k xs)"
    then obtain m where m: "m < k" "e = xs ! m"
      using assms(2) by (auto simp: in_set_conv_nth)
    with assms(3) have "f (xs ! (k - 1)) < f (xs ! k)" by auto
    moreover have "f (xs ! m) \<le> f (xs ! (k - 1))"
      using mono[of m "k - 1"] m assms(2) by simp
    ultimately show "f e < f (xs ! k)" using m by simp
  qed
  have high: "\<forall>e \<in> set (drop k xs). \<not> f e < f (xs ! k)"
  proof
    fix e assume "e \<in> set (drop k xs)"
    then obtain m where m: "m < length xs - k" "e = xs ! (k + m)"
      by (auto simp: in_set_conv_nth)
    then have "f (xs ! k) \<le> f (xs ! (k + m))" using mono[of k "k + m"] by simp
    with m show "\<not> f e < f (xs ! k)" by simp
  qed
  have "filter (\<lambda>e. f e < f (xs ! k)) (take k xs @ drop k xs)
        = take k xs"
    unfolding filter_append using low high by (simp add: filter_id_conv filter_empty_conv)
  then show ?thesis by simp
qed

lemma length_filter_insort_key:
  "length (filter P (insort_key f x xs)) = length (filter P (x # xs))"
  by (induction xs) auto

lemma length_filter_sort_key:
  "length (filter P (sort_key f xs)) = length (filter P xs)"
  by (induction xs) (simp_all add: length_filter_insort_key)

lemma count_less_ndenumerate:
  "length (filter (\<lambda>e. snd e < v) (ndenumerate hm)) = length (filter (\<lambda>x. x < v) (concat hm))"
proof -
  have "filter (\<lambda>x. x < v) (map snd (ndenumerate hm)) = map snd (filter (\<lambda>e. snd e < v) (ndenumerate hm))"
    by (simp add: filter_map comp_def)
  then show ?thesis by (metis length_map map_snd_ndenumerate)
qed


text \<open>
  The percentile stage in closed form: it returns, keeps the shape, and the cell of raw
  value \<open>v\<close> receives (number of cells of smaller value + 1) / (number of cells).
  The invariant of the loop over the sorted cells, after \<open>k\<close> iterations: the cells
  at the first \<open>k\<close> sorted positions hold their percentile, the others their raw
  value, and the pair carried along belongs to the entry at position \<open>k - 1\<close>.
\<close>

lemma calc_percentiles_cells:
  assumes shape: "has_shape w h hm"
  shows "\<exists>hm'. calc_percentiles hm = Inr hm' \<and> has_shape w h hm' \<and>
           (\<forall>i<w. \<forall>j<h. hm' ! i ! j = percentile_of hm (hm ! i ! j))"
proof -
  define srt where "srt = sort_key snd (ndenumerate hm)"
  define n where "n = length srt"
  have n_cells: "n = length (concat hm)"
    unfolding n_def srt_def using map_snd_ndenumerate[of hm] by (metis length_map length_sort)
  have srt_sorted: "sorted (map snd srt)"
    unfolding srt_def by simp
  have set_srt: "set srt = {((int i, int j), hm ! i ! j) | i j. i < w \<and> j < h}"
    unfolding srt_def using set_ndenumerate[OF shape] by simp
  have count: "length (filter (\<lambda>e. snd e < v) srt) = length (filter (\<lambda>x. x < v) (concat hm))" for v
    unfolding srt_def by (simp add: length_filter_sort_key count_less_ndenumerate)
  have first: "(of_nat k + 1) / of_nat n = percentile_of hm (snd (srt ! k))"
    if "k < n" "k = 0 \<or> snd (srt ! (k - 1)) \<noteq> snd (srt ! k)" for k
  proof -
    have "k = 0 \<or> snd (srt ! (k - 1)) < snd (srt ! k)"
    proof (cases "k = 0")
      case True then show ?thesis by simp
    next
      case False
      then have "snd (srt ! (k - 1)) \<le> snd (srt ! k)"
        using srt_sorted that(1) unfolding n_def
        by (auto simp: sorted_iff_nth_mono dest!: spec[of _ "k - 1"] spec[of _ k])
      with that(2) False show ?thesis by simp
    qed
    then have "filter (\<lambda>e. snd e < snd (srt ! k)) srt = take k srt"
      using sorted_filter_less_take[OF srt_sorted, of k] that(1) unfolding n_def by simp
    then have "length (filter (\<lambda>e. snd e < snd (srt ! k)) srt) = k"
      using that(1) unfolding n_def by simp
    then show ?thesis
      unfolding percentile_of_def count[symmetric] n_cells[symmetric] by simp
  qed
  define I where "I p st = (case st of (t, prev) \<Rightarrow>
       has_shape w h t \<and>
       prev = (if p = [] then None
               else Some (percentile_of hm (snd (srt ! (length p - 1))), snd (srt ! (length p - 1)))) \<and>
       (\<forall>i<w. \<forall>j<h. t ! i ! j =
          (if (int i, int j) \<in> fst ` set (take (length p) srt)
           then percentile_of hm (hm ! i ! j) else hm ! i ! j)))"
    for p :: "(nat \<times> ((int \<times> int) \<times> rat)) list" and st :: "heightmap \<times> (rat \<times> rat) option"
  have "\<exists>s'. for_each (enumerate 0 srt) (percentile_step n) (hm, None) = Inr s'
           \<and> I (enumerate 0 srt) s'"
  proof (rule for_each_invariant)
    show "I [] (hm, None)" using shape by (simp add: I_def)
  next
    fix p x q st
    assume split: "enumerate 0 srt = p @ x # q" and inv: "I p st"
    obtain t prev where st: "st = (t, prev)" by (cases st)
    define k where "k = length p"
    have "length (enumerate 0 srt) = length (p @ x # q)" using split by simp
    then have kn: "k < n" unfolding n_def k_def by simp
    have "enumerate 0 srt ! k = x" unfolding split k_def by simp
    then have x: "x = (k, srt ! k)"
      using kn unfolding n_def by (simp add: nth_enumerate_eq)
    have "srt ! k \<in> set srt" using kn unfolding n_def by simp
    then obtain i j where e: "srt ! k = ((int i, int j), hm ! i ! j)" "i < w" "j < h"
      unfolding set_srt by auto
    from inv have t_shape: "has_shape w h t"
      and prev: "prev = (if p = [] then None
               else Some (percentile_of hm (snd (srt ! (k - 1))), snd (srt ! (k - 1))))"
      and cells: "\<And>a b. a < w \<Longrightarrow> b < h \<Longrightarrow> t ! a ! b =
          (if (int a, int b) \<in> fst ` set (take k srt)
           then percentile_of hm (hm ! a ! b) else hm ! a ! b)"
      unfolding I_def st k_def by simp_all
    have p_empty: "p = [] \<longleftrightarrow> k = 0" unfolding k_def by simp
    define c where "c = percentile_of hm (hm ! i ! j)"
    have curr: "(case prev of None \<Rightarrow> (of_nat k + 1) / of_nat n
            | Some (last_percentile, last_value) \<Rightarrow>
                if hm ! i ! j = last_value then last_percentile else (of_nat k + 1) / of_nat n) = c"
    proof (cases "k = 0")
      case True
      then show ?thesis using first[of k] kn e prev p_empty by (simp add: c_def)
    next
      case False
      show ?thesis
      proof (cases "snd (srt ! (k - 1)) = hm ! i ! j")
        case True
        then show ?thesis using prev p_empty False by (simp add: c_def)
      next
        case neq: False
        then show ?thesis using first[of k] kn e prev p_empty False by (auto simp: c_def)
      qed
    qed
    have step: "percentile_step n x st = Inr (cell_update t i j c, Some (c, hm ! i ! j))"
      unfolding percentile_step_def x st e
      by (simp add: curr Let_def hm_set_nat[OF t_shape e(2,3)])
    have take_Suc: "take (Suc k) srt = take k srt @ [srt ! k]"
      using kn unfolding n_def by (simp add: take_Suc_conv_app_nth)
    have "I (p @ [x]) (cell_update t i j c, Some (c, hm ! i ! j))"
      unfolding I_def
      using t_shape e cells
      by (auto simp: has_shape_cell_update nth_cell_update k_def[symmetric] take_Suc c_def)
    with step show "\<exists>t'. percentile_step n x st = Inr t' \<and> I (p @ [x]) t'" by blast
  qed
  then obtain hm' prev where run: "for_each (enumerate 0 srt) (percentile_step n) (hm, None) = Inr (hm', prev)"
    and fin: "I (enumerate 0 srt) (hm', prev)" by auto
  have "fst ` set srt = {(int i, int j) | i j. i < w \<and> j < h}"
    unfolding set_srt by force
  with fin have "has_shape w h hm'" "\<forall>i<w. \<forall>j<h. hm' ! i ! j = percentile_of hm (hm ! i ! j)"
    unfolding I_def by auto
  moreover have "calc_percentiles hm = Inr hm'"
    using run unfolding calc_percentiles_def srt_def[symmetric] n_def[symmetric] Let_def by simp
  ultimately show ?thesis by blast
qed


lemma length_filter_less_mono:
  "(v1::rat) \<le> v2 \<Longrightarrow> length (filter (\<lambda>x. x < v1) xs) \<le> length (filter (\<lambda>x. x < v2) xs)"
  by (induction xs) auto

lemma percentile_of_mono: "v1 \<le> v2 \<Longrightarrow> percentile_of hm v1 \<le> percentile_of hm v2"
  unfolding percentile_of_def
  by (intro divide_right_mono add_right_mono) (simp_all add: length_filter_less_mono)

text \<open>
  C4. After the percentile stage on any field: for every pair of cells whose raw values
  satisfy \<open>v1 < v2\<close>, the percentile of the first is less than or equal to that of
  the second, and for every pair of cells of equal raw value the percentiles are equal.
\<close>

theorem percentiles_order_and_ties:
  assumes "has_shape w h hm"
  shows "\<exists>hm'. calc_percentiles hm = Inr hm' \<and> has_shape w h hm' \<and>
     (\<forall>i1<w. \<forall>j1<h. \<forall>i2<w. \<forall>j2<h.
        (hm ! i1 ! j1 < hm ! i2 ! j2 \<longrightarrow> hm' ! i1 ! j1 \<le> hm' ! i2 ! j2) \<and>
        (hm ! i1 ! j1 = hm ! i2 ! j2 \<longrightarrow> hm' ! i1 ! j1 = hm' ! i2 ! j2))"
proof -
  from calc_percentiles_cells[OF assms] obtain hm' where
    r: "calc_percentiles hm = Inr hm'" "has_shape w h hm'"
    and c: "\<And>i j. i < w \<Longrightarrow> j < h \<Longrightarrow> hm' ! i ! j = percentile_of hm (hm ! i ! j)"
    by blast
  have "(hm ! i1 ! j1 < hm ! i2 ! j2 \<longrightarrow> hm' ! i1 ! j1 \<le> hm' ! i2 ! j2) \<and>
        (hm ! i1 ! j1 = hm ! i2 ! j2 \<longrightarrow> hm' ! i1 ! j1 = hm' ! i2 ! j2)"
    if "i1 < w" "j1 < h" "i2 < w" "j2 < h" for i1 j1 i2 j2
    using that by (simp add: c percentile_of_mono)
  with r show ?thesis by blast
qed

theorem percentiles_order_and_ties_witness:
  "has_shape 2 2 [[1, 2], [2, 3]] \<and>
   (\<exists>hm'. calc_percentiles [[1, 2], [2, 3]] = Inr hm' \<and>
      hm' ! 0 ! 0 \<le> hm' ! 0 ! 1 \<and> hm' ! 0 ! 1 = hm' ! 1 ! 0 \<and> hm' ! 1 ! 0 \<le> hm' ! 1 ! 1)"
proof -
  have s: "has_shape 2 2 [[1, 2], [2, 3]]" by (simp add: has_shape_def)
  from percentiles_order_and_ties[OF s] obtain hm' where
    r: "calc_percentiles [[1, 2], [2, 3]] = Inr hm'"
    and c: "\<forall>i1<2. \<forall>j1<2. \<forall>i2<2. \<forall>j2<2.
        ([[1, 2], [2, 3::rat]] ! i1 ! j1 < [[1, 2], [2, 3]] ! i2 ! j2 \<longrightarrow> hm' ! i1 ! j1 \<le> hm' ! i2 ! j2) \<and>
        ([[1, 2], [2, 3::rat]] ! i1 ! j1 = [[1, 2], [2, 3]] ! i2 ! j2 \<longrightarrow> hm' ! i1 ! j1 = hm' ! i2 ! j2)"
    by blast
  have "hm' ! 0 ! 0 \<le> hm' ! 0 ! 1" using c[rule_format, of 0 0 0 1] by simp
  moreover have "hm' ! 0 ! 1 = hm' ! 1 ! 0" using c[rule_format, of 0 1 1 0] by simp
  moreover have "hm' ! 1 ! 0 \<le> hm' ! 1 ! 1" using c[rule_format, of 1 0 1 1] by simp
  ultimately show ?thesis using s r by blast
qed

lemma length_concat_shape: "has_shape w h hm \<Longrightarrow> length (concat hm) = w * h"
proof -
  assume a: "has_shape w h hm"
  then have "map length hm = replicate w h"
    by (auto simp: has_shape_def list_all_length intro!: nth_equalityI)
  then show ?thesis by (simp add: length_concat sum_list_replicate)
qed

lemma set_concat_shape:
  "has_shape w h hm \<Longrightarrow> set (concat hm) = {hm ! i ! j | i j. i < w \<and> j < h}"
  by (fastforce simp: has_shape_def list_all_length in_set_conv_nth)

lemma has_shape_zeros: "has_shape w h (zeros w h)"
  by (simp add: has_shape_def zeros_def list_all_length)

lemma nth_zeros: "i < w \<Longrightarrow> j < h \<Longrightarrow> zeros w h ! i ! j = 0"
  by (simp add: zeros_def)

lemma inverse_of_nat_neq_one: "1 < n \<Longrightarrow> (1::rat) / of_nat n \<noteq> 1"
  by simp

text \<open>
  C10. On a field whose raw values are all equal, the percentile stage gives every cell
  the percentile \<open>1 / (width * height)\<close>; when the field has more than one cell, no
  cell receives the percentile 1. The witness runs the stage on the zeros of the base
  class's raw generator.
\<close>

theorem percentiles_of_constant_field:
  assumes "has_shape w h hm" and "\<forall>i<w. \<forall>j<h. hm ! i ! j = c"
  shows "\<exists>hm'. calc_percentiles hm = Inr hm' \<and> has_shape w h hm' \<and>
           (\<forall>i<w. \<forall>j<h. hm' ! i ! j = 1 / of_nat (w * h) \<and> (1 < w * h \<longrightarrow> hm' ! i ! j \<noteq> 1))"
proof -
  from calc_percentiles_cells[OF assms(1)] obtain hm' where
    r: "calc_percentiles hm = Inr hm'" "has_shape w h hm'"
    and p: "\<And>i j. i < w \<Longrightarrow> j < h \<Longrightarrow> hm' ! i ! j = percentile_of hm (hm ! i ! j)"
    by blast
  have "\<forall>x \<in> set (concat hm). \<not> x < c"
    using assms(2) unfolding set_concat_shape[OF assms(1)] by auto
  then have "filter (\<lambda>x. x < c) (concat hm) = []"
    by (simp add: filter_empty_conv)
  then have pc: "percentile_of hm c = 1 / of_nat (w * h)"
    unfolding percentile_of_def length_concat_shape[OF assms(1)] by simp
  have "hm' ! i ! j = 1 / of_nat (w * h) \<and> (1 < w * h \<longrightarrow> hm' ! i ! j \<noteq> 1)"
    if "i < w" "j < h" for i j
  proof -
    have "hm' ! i ! j = 1 / of_nat (w * h)" using p[OF that] assms(2) that pc by simp
    moreover have "1 < w * h \<longrightarrow> (1::rat) / of_nat (w * h) \<noteq> 1"
      using inverse_of_nat_neq_one[of "w * h"] by blast
    ultimately show ?thesis by simp
  qed
  with r show ?thesis by blast
qed

theorem percentiles_of_constant_field_witness:
  "generate_raw (replay_rng example_draws) GenerationStrategy 2 3 example_config 0 = Inr (zeros 2 3, 0) \<and>
   has_shape 2 3 (zeros 2 3) \<and>
   calc_percentiles (zeros 2 3) = Inr [[1 / 6, 1 / 6, 1 / 6], [1 / 6, 1 / 6, 1 / 6]]"
proof -
  have s: "has_shape 2 3 (zeros 2 3)" by (rule has_shape_zeros)
  have z: "\<forall>i<2. \<forall>j<3. zeros 2 3 ! i ! j = 0" by (simp add: nth_zeros)
  from percentiles_of_constant_field[OF s z] obtain hm' where
    r: "calc_percentiles (zeros 2 3) = Inr hm'" "has_shape 2 3 hm'"
    and c: "\<forall>i<2. \<forall>j<3. hm' ! i ! j = 1 / of_nat (2 * 3) \<and> (1 < (2::nat) * 3 \<longrightarrow> hm' ! i ! j \<noteq> 1)"
    by blast
  have "calc_percentiles (zeros 2 3) = Inr [[1 / 6, 1 / 6, 1 / 6], [1 / 6, 1 / 6, 1 / 6]]"
    by code_simp
  moreover have "generate_raw (replay_rng example_draws) GenerationStrategy 2 3 example_config 0 = Inr (zeros 2 3, 0)"
    by (simp add: generate_raw_def)
  ultimately show ?thesis using s by simp
qed

section \<open>Erosion\<close>

text \<open>The quotient of the code is the weighted average of the specification.\<close>

lemma neighbor_average_spec:
  assumes "i < w" "j < h"
  shows "neighbor_average w h hm i j = weighted_average_spec w h hm i j"
  using assms
  by (cases "i = 0"; cases "Suc i < w"; cases "j = 0"; cases "Suc j < h")
     (simp_all add: neighbor_average_def weighted_average_spec_def get_neighbors_def
        surrounding_def nat_add_distrib nat_diff_distrib)

lemma neighbor_weights_pos:
  assumes "i < w" "j < h"
  shows "0 < sum_list (map (\<lambda>((k, l), wt). wt) (get_neighbors (int i, int j) (int w, int h)))"
  using assms
  by (cases "i = 0"; cases "Suc i < w"; cases "j = 0"; cases "Suc j < h")
     (simp_all add: get_neighbors_def)

lemma get_neighbors_in_bounds:
  assumes "((k, l), wt) \<in> set (get_neighbors pt (int w, int h))"
  shows "0 \<le> k \<and> k < int w \<and> 0 \<le> l \<and> l < int h"
proof -
  obtain x y where pt: "pt = (x, y)" by (cases pt)
  from assms have "(\<lambda>((a, b), wt). a \<ge> 0 \<and> a < int w \<and> b \<ge> 0 \<and> b < int h) ((k, l), wt)"
    unfolding get_neighbors_def pt prod.case set_filter by blast
  then show ?thesis by simp
qed

lemma map_err_weighted_reads:
  assumes "has_shape w h src"
    and "\<forall>((k, l), wt) \<in> set ns. 0 \<le> k \<and> k < int w \<and> 0 \<le> l \<and> l < int h"
  shows "map_err (\<lambda>((k, l), wt). rbind (hm_get src k l) (\<lambda>x. Inr (x * of_int wt))) ns
         = Inr (map (\<lambda>((k, l), wt). src ! nat k ! nat l * of_int wt) ns)"
  using assms(2)
proof (induction ns)
  case Nil
  show ?case by simp
next
  case (Cons n ns)
  obtain k l wt where n: "n = ((k, l), wt)" by (cases n) auto
  with Cons.prems have b: "0 \<le> k" "k < int w" "0 \<le> l" "l < int h" by auto
  then have "hm_get src (int (nat k)) (int (nat l)) = Inr (src ! nat k ! nat l)"
    by (intro hm_get_nat[OF assms(1)]) simp_all
  then have "hm_get src k l = Inr (src ! nat k ! nat l)" using b by simp
  moreover have "map_err (\<lambda>((k, l), wt). rbind (hm_get src k l) (\<lambda>x. Inr (x * of_int wt))) ns
         = Inr (map (\<lambda>((k, l), wt). src ! nat k ! nat l * of_int wt) ns)"
    using Cons by simp
  ultimately show ?case by (simp add: n)
qed

text \<open>
  The body for one cell writes one cell of the array that \<^verbatim>\<open>hm_copy\<close> names and
  reads the array that \<^verbatim>\<open>self.heightmap\<close> names.
\<close>

lemma smooth_cell_update:
  assumes "i < w" "j < h"
    and "has_shape w h (arrays t (self_heightmap t))"
    and "has_shape w h (arrays t (hm_copy t))"
  shows "smooth_cell w h (int i) (int j) t =
     Inr (t\<lparr>arrays := (arrays t)(hm_copy t :=
            cell_update (arrays t (hm_copy t)) i j
              (of_int (py_round (neighbor_average w h (arrays t (self_heightmap t)) i j))))\<rparr>)"
proof -
  let ?ns = "get_neighbors (int i, int j) (int w, int h)"
  have reads: "map_err (\<lambda>((k, l), wt).
                   rbind (hm_get (arrays t (self_heightmap t)) k l) (\<lambda>x. Inr (x * of_int wt))) ?ns
      = Inr (map (\<lambda>((k, l), wt). arrays t (self_heightmap t) ! nat k ! nat l * of_int wt) ?ns)"
    by (rule map_err_weighted_reads[OF assms(3)]) (auto dest: get_neighbors_in_bounds)
  have pos: "sum_list (map (\<lambda>((k, l), wt). wt) ?ns) \<noteq> 0"
    using neighbor_weights_pos[OF assms(1,2)] by simp
  show ?thesis
    unfolding smooth_cell_def Let_def reads
    using pos by (simp add: hm_set_nat[OF assms(4,1,2)] neighbor_average_def Let_def)
qed

lemma has_shape_erode: "has_shape w h (erode w h hm)"
  by (simp add: erode_def has_shape_def list_all_length)

lemma nth_erode:
  "i < w \<Longrightarrow> j < h \<Longrightarrow> erode w h hm ! i ! j = of_int (py_round (neighbor_average w h hm i j))"
  by (simp add: erode_def)

lemma shape_cells_eq:
  assumes "has_shape w h a" "has_shape w h b" "\<And>i j. i < w \<Longrightarrow> j < h \<Longrightarrow> a ! i ! j = b ! i ! j"
  shows "a = b"
proof (rule nth_equalityI)
  show "length a = length b" using assms(1,2) by (simp add: has_shape_length)
next
  fix i assume "i < length a"
  then have i: "i < w" using assms(1) by (simp add: has_shape_length)
  show "a ! i = b ! i"
    by (rule nth_equalityI) (simp_all add: has_shape_row[OF assms(1) i] has_shape_row[OF assms(2) i] assms(3)[OF i])
qed

text \<open>
  One round, on a store where the address of \<^verbatim>\<open>self.heightmap\<close> is in use
  (below \<open>fresh\<close>): the copy lives at a new address, so the writes of the round
  leave the array that is read untouched. The invariant of the loop over the cells:
  the cells already visited hold the rounded quotient computed from the array at the
  start of the round, the others the copied value.
\<close>

lemma smooth_round_erode:
  assumes shape: "has_shape w h (arrays s (self_heightmap s))"
    and fresh: "self_heightmap s < fresh s"
  shows "\<exists>s'. smooth_round w h s = Inr s' \<and> self_heightmap s' < fresh s' \<and>
           arrays s' (self_heightmap s') = erode w h (arrays s (self_heightmap s))"
proof -
  define src where "src = arrays s (self_heightmap s)"
  define I where "I p t \<longleftrightarrow>
      self_heightmap t = self_heightmap s \<and> hm_copy t = fresh s \<and> fresh t = Suc (fresh s) \<and>
      arrays t (self_heightmap s) = src \<and> has_shape w h (arrays t (fresh s)) \<and>
      (\<forall>i<w. \<forall>j<h. arrays t (fresh s) ! i ! j =
         (if (int i, int j) \<in> set p then of_int (py_round (neighbor_average w h src i j))
          else src ! i ! j))"
    for p :: "(int \<times> int) list" and t :: smooth_state
  have ne: "self_heightmap s \<noteq> fresh s" using fresh by simp
  have "\<exists>t. for_each (grid w h) (\<lambda>(i, j). smooth_cell w h i j) (np_copy s) = Inr t \<and> I (grid w h) t"
  proof (rule for_each_invariant)
    show "I [] (np_copy s)"
      using shape ne by (simp add: I_def np_copy_def src_def)
  next
    fix p x q t
    assume split: "grid w h = p @ x # q" and inv: "I p t"
    have "x \<in> set (grid w h)" unfolding split by simp
    then obtain i j where x: "x = (int i, int j)" "i < w" "j < h"
      by (auto simp: set_grid)
    from inv have t: "self_heightmap t = self_heightmap s" "hm_copy t = fresh s"
      "fresh t = Suc (fresh s)" "arrays t (self_heightmap s) = src"
      "has_shape w h (arrays t (fresh s))"
      and cells: "\<And>a b. a < w \<Longrightarrow> b < h \<Longrightarrow> arrays t (fresh s) ! a ! b =
         (if (int a, int b) \<in> set p then of_int (py_round (neighbor_average w h src a b))
          else src ! a ! b)"
      unfolding I_def by simp_all
    have sh: "has_shape w h (arrays t (self_heightmap t))" "has_shape w h (arrays t (hm_copy t))"
      using t shape by (simp_all add: src_def)
    define t' where "t' = t\<lparr>arrays := (arrays t)(hm_copy t :=
            cell_update (arrays t (hm_copy t)) i j
              (of_int (py_round (neighbor_average w h (arrays t (self_heightmap t)) i j))))\<rparr>"
    have step: "(\<lambda>(i, j). smooth_cell w h i j) x t = Inr t'"
      unfolding x t'_def using smooth_cell_update[OF x(2,3) sh] by simp
    have "I (p @ [x]) t'"
      unfolding I_def t'_def
      using t ne x cells
      by (auto simp: has_shape_cell_update nth_cell_update)
    with step show "\<exists>t'. (\<lambda>(i, j). smooth_cell w h i j) x t = Inr t' \<and> I (p @ [x]) t'" by blast
  qed
  then obtain t where run: "for_each (grid w h) (\<lambda>(i, j). smooth_cell w h i j) (np_copy s) = Inr t"
    and fin: "I (grid w h) t" by blast
  from fin have t: "hm_copy t = fresh s" "fresh t = Suc (fresh s)"
    "has_shape w h (arrays t (fresh s))"
    and cells: "\<And>a b. a < w \<Longrightarrow> b < h \<Longrightarrow>
       arrays t (fresh s) ! a ! b = of_int (py_round (neighbor_average w h src a b))"
    unfolding I_def by (auto simp: set_grid)
  have "arrays t (fresh s) = erode w h src"
    by (rule shape_cells_eq[OF t(3) has_shape_erode]) (simp add: cells nth_erode)
  moreover have "smooth_round w h s = Inr (t\<lparr>self_heightmap := hm_copy t\<rparr>)"
    unfolding smooth_round_def for_each_nested run by simp
  ultimately show ?thesis using t by (simp add: src_def)
qed

text \<open>The whole filter is the iteration of \<open>erode\<close>.\<close>

lemma smooth_erode:
  assumes shape: "has_shape w h hm"
  shows "smooth w h cfg hm =
     Inr (case cfg_erosion cfg of None \<Rightarrow> hm | Some e \<Rightarrow> (erode w h ^^ nat e) hm)"
proof (cases "cfg_erosion cfg")
  case None
  then show ?thesis by (simp add: smooth_def)
next
  case (Some e)
  define s0 where "s0 = \<lparr>arrays = (\<lambda>a. [])(0 := hm), fresh = 1, self_heightmap = 0, hm_copy = 0\<rparr>"
  define I where "I p t \<longleftrightarrow> self_heightmap t < fresh t \<and>
       arrays t (self_heightmap t) = (erode w h ^^ length p) hm"
    for p :: "int list" and t :: smooth_state
  have shapes: "has_shape w h ((erode w h ^^ n) hm)" for n
    using shape by (cases n) (simp_all add: has_shape_erode)
  have "\<exists>t. for_each (py_range e) (\<lambda>m. smooth_round w h) s0 = Inr t \<and> I (py_range e) t"
  proof (rule for_each_invariant)
    show "I [] s0" by (simp add: I_def s0_def)
  next
    fix p x q t
    assume "py_range e = p @ x # q" and inv: "I p t"
    then have t: "self_heightmap t < fresh t"
      "arrays t (self_heightmap t) = (erode w h ^^ length p) hm"
      unfolding I_def by simp_all
    have "has_shape w h (arrays t (self_heightmap t))" unfolding t(2) by (rule shapes)
    from smooth_round_erode[OF this t(1)] t(2)
    show "\<exists>t'. smooth_round w h t = Inr t' \<and> I (p @ [x]) t'"
      by (auto simp: I_def)
  qed
  then obtain t where "for_each (py_range e) (\<lambda>m. smooth_round w h) s0 = Inr t"
    "arrays t (self_heightmap t) = (erode w h ^^ length (py_range e)) hm"
    unfolding I_def by blast
  then show ?thesis
    unfolding smooth_def Let_def s0_def[symmetric] Some
    by (simp add: py_range_def)
qed


lemma floor_cases:
  fixes q :: rat and m :: int
  shows "(of_int m :: rat) \<le> of_int \<lfloor>q\<rfloor> \<or> of_int \<lfloor>q\<rfloor> + (1::rat) \<le> of_int m"
proof -
  have "m \<le> \<lfloor>q\<rfloor> \<or> \<lfloor>q\<rfloor> + 1 \<le> m" by linarith
  then show ?thesis
  proof
    assume "m \<le> \<lfloor>q\<rfloor>" then show ?thesis by simp
  next
    assume "\<lfloor>q\<rfloor> + 1 \<le> m"
    then have "(of_int (\<lfloor>q\<rfloor> + 1) :: rat) \<le> of_int m" by (simp only: of_int_le_iff)
    then show ?thesis by simp
  qed
qed

lemma py_round_nearest:
  "\<bar>of_int (py_round q) - q\<bar> \<le> \<bar>of_int m - q\<bar>"
proof -
  have f: "of_int \<lfloor>q\<rfloor> \<le> q" "q < of_int \<lfloor>q\<rfloor> + 1" by linarith+
  from floor_cases[of m q] f show ?thesis
    unfolding py_round_def Let_def by (auto split: if_splits) 
qed

lemma py_round_bounds:
  assumes "of_int a \<le> q" "q \<le> of_int b"
  shows "a \<le> py_round q \<and> py_round q \<le> b"
proof -
  have a: "a \<le> \<lfloor>q\<rfloor>" using assms(1) by (simp add: le_floor_iff)
  have b: "\<lfloor>q\<rfloor> \<le> b" using assms(2) by (simp add: floor_le_iff)
  show ?thesis
  proof (cases "\<lfloor>q\<rfloor> = b")
    case True
    have "of_int \<lfloor>q\<rfloor> \<le> q" by linarith
    with assms(2) True have "q - of_int \<lfloor>q\<rfloor> = 0" by simp
    then have "py_round q = \<lfloor>q\<rfloor>" by (simp add: py_round_def)
    with a b show ?thesis by simp
  next
    case False
    with b have "\<lfloor>q\<rfloor> + 1 \<le> b" by simp
    with a show ?thesis
      unfolding py_round_def Let_def by (auto split: if_splits)
  qed
qed

text \<open>
  C6. Each erosion round reads only the field as it was at the start of the round: the
  filter with \<open>e\<close> rounds returns the \<open>e\<close>-fold iteration of \<open>erode\<close>, a
  function that computes every cell of the new field from the field it is given. For
  every cell \<open>(i, j)\<close> the new value is the rounding of (sum of the in-bounds
  neighbour values weighted 1, plus 2 times the centre value) divided by the sum of
  the weights present, and no integer is nearer to that quotient.
\<close>

theorem erosion_rounds_read_a_snapshot:
  assumes "has_shape w h hm" and "cfg_erosion cfg = Some e"
  shows "smooth w h cfg hm = Inr ((erode w h ^^ nat e) hm) \<and>
     (\<forall>a. \<forall>i<w. \<forall>j<h.
        erode w h a ! i ! j = of_int (py_round (weighted_average_spec w h a i j)) \<and>
        (\<forall>m. \<bar>erode w h a ! i ! j - weighted_average_spec w h a i j\<bar>
               \<le> \<bar>of_int m - weighted_average_spec w h a i j\<bar>))"
proof -
  have "smooth w h cfg hm = Inr ((erode w h ^^ nat e) hm)"
    using smooth_erode[OF assms(1), of cfg] assms(2) by simp
  moreover have "erode w h a ! i ! j = of_int (py_round (weighted_average_spec w h a i j)) \<and>
        (\<forall>m. \<bar>erode w h a ! i ! j - weighted_average_spec w h a i j\<bar>
               \<le> \<bar>of_int m - weighted_average_spec w h a i j\<bar>)"
    if "i < w" "j < h" for a i j
    using that by (simp add: nth_erode neighbor_average_spec py_round_nearest)
  ultimately show ?thesis by blast
qed

theorem erosion_rounds_read_a_snapshot_witness:
  "has_shape 5 5 corner_example \<and>
   smooth 5 5 (example_config\<lparr>cfg_erosion := Some 2\<rparr>) corner_example
     = Inr (erode 5 5 (erode 5 5 corner_example)) \<and>
   smooth 5 5 (example_config\<lparr>cfg_erosion := Some 2\<rparr>) corner_example
     = Inr [[1, 1, 1, 0, 0], [1, 1, 0, 0, 0], [1, 0, 0, 0, 0], [0, 0, 0, 0, 0], [0, 0, 0, 0, 0]] \<and>
   erode 5 5 corner_example ! 0 ! 0 = of_int (py_round (weighted_average_spec 5 5 corner_example 0 0)) \<and>
   weighted_average_spec 5 5 corner_example 0 0 = 8 / 5"
proof -
  have s: "has_shape 5 5 corner_example" by (simp add: has_shape_def corner_example_def)
  have c: "cfg_erosion (example_config\<lparr>cfg_erosion := Some 2\<rparr>) = Some 2" by simp
  note t = erosion_rounds_read_a_snapshot[OF s c]
  have "smooth 5 5 (example_config\<lparr>cfg_erosion := Some 2\<rparr>) corner_example
     = Inr (erode 5 5 (erode 5 5 corner_example))"
    using t by (simp add: numeral_2_eq_2)
  moreover have "erode 5 5 corner_example ! 0 ! 0
      = of_int (py_round (weighted_average_spec 5 5 corner_example 0 0))"
    using t[THEN conjunct2, rule_format, of 0 0 corner_example] by simp
  moreover have "smooth 5 5 (example_config\<lparr>cfg_erosion := Some 2\<rparr>) corner_example
     = Inr [[1, 1, 1, 0, 0], [1, 1, 0, 0, 0], [1, 0, 0, 0, 0], [0, 0, 0, 0, 0], [0, 0, 0, 0, 0]]"
    by code_simp
  moreover have "weighted_average_spec 5 5 corner_example 0 0 = 8 / 5"
    by code_simp
  ultimately show ?thesis using s by blast
qed

text \<open>
  C3 (counterexample). The corner \<open>(0, 0)\<close> of a 5x5 field has three neighbours
  inside the field, not four, and the weights present sum to 5, not 6. On the example
  field (corner 1, its three neighbours 2) the code computes \<open>round(8/5) = 2\<close>; a
  divisor of 6 would give \<open>round(8/6) = 1\<close>.
\<close>

theorem corner_cell_counterexample:
  "sum_list (map snd (get_neighbors (0, 0) (5, 5))) \<noteq> 6 \<and>
   length (filter (\<lambda>n. fst n \<noteq> (0, 0)) (get_neighbors (0, 0) (5, 5))) \<noteq> 4 \<and>
   rbind (smooth 5 5 (example_config\<lparr>cfg_erosion := Some 1\<rparr>) corner_example)
         (\<lambda>hm. hm_get hm 0 0) = Inr 2 \<and>
   py_round ((2 * 1 + 2 + 2 + 2) / 6) \<noteq> 2"
  by code_simp

text \<open>
  C3 (as amended). For the corner cell \<open>(0, 0)\<close> of a 5x5 field, one erosion round
  computes the new value as the rounded weighted average over exactly 3 actual
  neighbours, \<open>(0, 1)\<close>, \<open>(1, 0)\<close> and \<open>(1, 1)\<close>, plus the centre cell of weight
  2, that is with the weight sum 5; the neighbours outside the field do not
  contribute to the divisor.
\<close>

theorem corner_cell_erosion:
  assumes "has_shape 5 5 hm" and "cfg_erosion cfg = Some 1"
  shows "get_neighbors (0, 0) (5, 5) = [((0, 0), 2), ((0, 1), 1), ((1, 0), 1), ((1, 1), 1)] \<and>
     (\<exists>hm'. smooth 5 5 cfg hm = Inr hm' \<and>
        hm' ! 0 ! 0 = of_int (py_round ((2 * hm ! 0 ! 0 + hm ! 0 ! 1 + hm ! 1 ! 0 + hm ! 1 ! 1) / 5)))"
proof -
  have n: "get_neighbors (0, 0) (5, 5) = [((0, 0), 2), ((0, 1), 1), ((1, 0), 1), ((1, 1), 1)]"
    by (simp add: get_neighbors_def)
  have "get_neighbors (int 0, int 0) (int 5, int 5) = get_neighbors (0, 0) (5, 5)" by simp
  then have "neighbor_average 5 5 hm 0 0
      = (2 * hm ! 0 ! 0 + hm ! 0 ! 1 + hm ! 1 ! 0 + hm ! 1 ! 1) / 5"
    unfolding neighbor_average_def Let_def n by simp
  moreover have "erode 5 5 hm ! 0 ! 0 = of_int (py_round (neighbor_average 5 5 hm 0 0))"
    by (simp add: nth_erode)
  ultimately have "erode 5 5 hm ! 0 ! 0
      = of_int (py_round ((2 * hm ! 0 ! 0 + hm ! 0 ! 1 + hm ! 1 ! 0 + hm ! 1 ! 1) / 5))"
    by (simp only:)
  moreover have "smooth 5 5 cfg hm = Inr (erode 5 5 hm)"
    using smooth_erode[OF assms(1), of cfg] assms(2) by simp
  ultimately show ?thesis using n by blast
qed

theorem corner_cell_erosion_witness:
  "has_shape 5 5 corner_example \<and>
   (\<exists>hm'. smooth 5 5 (example_config\<lparr>cfg_erosion := Some 1\<rparr>) corner_example = Inr hm' \<and>
      hm' ! 0 ! 0 = of_int (py_round (8 / 5)) \<and> hm' ! 0 ! 0 = 2)"
proof -
  have s: "has_shape 5 5 corner_example" by (simp add: has_shape_def corner_example_def)
  have c: "cfg_erosion (example_config\<lparr>cfg_erosion := Some 1\<rparr>) = Some 1" by simp
  have v: "(2 * corner_example ! 0 ! 0 + corner_example ! 0 ! 1 + corner_example ! 1 ! 0
            + corner_example ! 1 ! 1) / 5 = 8 / 5"
    by (simp add: corner_example_def)
  have r: "py_round (8 / 5) = 2" by code_simp
  from corner_cell_erosion[OF s c] show ?thesis
    unfolding v using s r by auto
qed

section \<open>The linear-fault strategy\<close>

text \<open>
  The invariant rule for a loop whose body may raise: the invariant holds when the loop
  returns, and whatever the loop raises, some iteration raised.
\<close>

lemma for_each_partial_aux:
  assumes "I pre s"
    and "\<And>p x q t t'. pre @ post = p @ x # q \<Longrightarrow> I p t \<Longrightarrow> body x t = Inr t' \<Longrightarrow> I (p @ [x]) t'"
    and "\<And>p x q t e. pre @ post = p @ x # q \<Longrightarrow> I p t \<Longrightarrow> body x t = Inl e \<Longrightarrow> E e"
  shows "(\<forall>s'. for_each post body s = Inr s' \<longrightarrow> I (pre @ post) s') \<and>
         (\<forall>e. for_each post body s = Inl e \<longrightarrow> E e)"
  using assms
proof (induction post arbitrary: pre s)
  case Nil
  then show ?case by simp
next
  case (Cons x post)
  show ?case
  proof (cases "body x s")
    case (Inl e)
    with Cons.prems(3)[of pre x post s e] Cons.prems(1) show ?thesis by simp
  next
    case (Inr t)
    with Cons.prems(2)[of pre x post s t] Cons.prems(1) have t: "I (pre @ [x]) t" by simp
    have "(\<forall>s'. for_each post body t = Inr s' \<longrightarrow> I ((pre @ [x]) @ post) s') \<and>
          (\<forall>e. for_each post body t = Inl e \<longrightarrow> E e)"
    proof (rule Cons.IH[OF t])
      fix p y q u u'
      assume "(pre @ [x]) @ post = p @ y # q" "I p u" "body y u = Inr u'"
      then show "I (p @ [y]) u'" using Cons.prems(2)[of p y q u u'] by simp
    next
      fix p y q u e
      assume "(pre @ [x]) @ post = p @ y # q" "I p u" "body y u = Inl e"
      then show "E e" using Cons.prems(3)[of p y q u e] by simp
    qed
    with Inr show ?thesis by simp
  qed
qed

lemma for_each_partial:
  assumes "I [] s"
    and "\<And>p x q t t'. xs = p @ x # q \<Longrightarrow> I p t \<Longrightarrow> body x t = Inr t' \<Longrightarrow> I (p @ [x]) t'"
    and "\<And>p x q t e. xs = p @ x # q \<Longrightarrow> I p t \<Longrightarrow> body x t = Inl e \<Longrightarrow> E e"
  shows "(\<forall>s'. for_each xs body s = Inr s' \<longrightarrow> I xs s') \<and>
         (\<forall>e. for_each xs body s = Inl e \<longrightarrow> E e)"
  using for_each_partial_aux[of I "[]" s xs body E] assms by simp

lemma cell_update_same: "cell_update hm i j (hm ! i ! j) = hm"
  by (simp add: cell_update_def)

lemma fault_cell_update:
  assumes "i < w" "j < h" "has_shape w h t"
  shows "fault_cell cmp y (int i) (int j) t =
     Inr (cell_update t i j (if comp_apply cmp y (of_nat j) then t ! i ! j + 1 else t ! i ! j))"
  using assms by (simp add: fault_cell_def hm_get_nat hm_set_nat cell_update_same)

text \<open>The loops over the cells add 1 to the cells on one side of the line.\<close>

lemma fault_cells_loop:
  assumes "has_shape w h hm"
  shows "\<exists>hm'. for_each (py_range (int w))
                 (\<lambda>i. let y = get_y s i
                      in for_each (py_range (int h)) (\<lambda>j. fault_cell cmp y i j)) hm = Inr hm' \<and>
           has_shape w h hm' \<and>
           (\<forall>i<w. \<forall>j<h. hm' ! i ! j = hm ! i ! j \<or> hm' ! i ! j = hm ! i ! j + 1)"
proof -
  let ?f = "\<lambda>i j x. if comp_apply cmp (get_y s (int i)) (of_nat j) then x + 1 else x :: rat"
  have "\<exists>hm'. for_each (grid w h) (\<lambda>(i, j). fault_cell cmp (get_y s i) i j) hm = Inr hm' \<and>
           has_shape w h hm' \<and>
           (\<forall>i<w. \<forall>j<h. hm' ! i ! j =
              (if (int i, int j) \<in> set (grid w h) then ?f i j (hm ! i ! j) else hm ! i ! j))"
  proof (rule for_each_cellwise[OF assms distinct_grid subset_refl])
    fix i j t
    assume "i < w" "j < h" "has_shape w h t"
    then show "(\<lambda>(i, j). fault_cell cmp (get_y s i) i j) (int i, int j) t
               = Inr (cell_update t i j (?f i j (t ! i ! j)))"
      using fault_cell_update[of i w j h t cmp "get_y s (int i)"] by simp
  qed
  moreover have "for_each (py_range (int w))
                 (\<lambda>i. let y = get_y s i
                      in for_each (py_range (int h)) (\<lambda>j. fault_cell cmp y i j)) hm
       = for_each (grid w h) (\<lambda>(i, j). fault_cell cmp (get_y s i) i j) hm"
    unfolding Let_def
    using for_each_nested[of w h "\<lambda>i j. fault_cell cmp (get_y s i) i j" hm] by simp
  ultimately show ?thesis by (auto simp: set_grid)
qed

lemma random_straight_Inl:
  "random_straight R w h g = Inl e \<Longrightarrow> e = NameError ''_LinearFaultStrategy__MODIFIER''"
  by (auto simp: random_straight_def Let_def split: prod.splits if_splits)

lemma py_get_comparators:
  "0 \<le> r \<Longrightarrow> r < 4 \<Longrightarrow> \<exists>cmp. py_get [Lt, Le, Gt, Ge] r = Inr cmp"
  by (simp add: py_get_def py_index_def)

text \<open>
  One iteration either raises the \<open>NameError\<close> of the equal x-values or leaves every
  cell as it was or one higher.
\<close>

lemma fault_iteration_outcome:
  assumes "has_shape w h hm" and "randint_in_range R"
  shows "(\<forall>hm' g'. fault_iteration R w h (hm, g) = Inr (hm', g') \<longrightarrow>
            has_shape w h hm' \<and>
            (\<forall>i<w. \<forall>j<h. hm' ! i ! j = hm ! i ! j \<or> hm' ! i ! j = hm ! i ! j + 1)) \<and>
         (\<forall>e. fault_iteration R w h (hm, g) = Inl e \<longrightarrow>
            e = NameError ''_LinearFaultStrategy__MODIFIER'')"
proof (cases "random_straight R w h g")
  case (Inl e)
  then show ?thesis using random_straight_Inl[OF Inl] by (simp add: fault_iteration_def)
next
  case (Inr sg)
  obtain s g1 where sg: "sg = (s, g1)" by (cases sg)
  obtain r g2 where r: "rnd_randint R 0 4 g1 = (r, g2)" by (cases "rnd_randint R 0 4 g1")
  with assms(2) have "0 \<le> r" "r < 4"
    unfolding randint_in_range_def by (metis fst_conv)+
  from py_get_comparators[OF this] obtain cmp where cmp: "py_get [Lt, Le, Gt, Ge] r = Inr cmp" ..
  from fault_cells_loop[OF assms(1), of s cmp] obtain hm' where
    l: "for_each (py_range (int w))
                 (\<lambda>i. let y = get_y s i
                      in for_each (py_range (int h)) (\<lambda>j. fault_cell cmp y i j)) hm = Inr hm'"
    "has_shape w h hm'" "\<forall>i<w. \<forall>j<h. hm' ! i ! j = hm ! i ! j \<or> hm' ! i ! j = hm ! i ! j + 1"
    by blast
  have "fault_iteration R w h (hm, g) = Inr (hm', g2)"
    unfolding fault_iteration_def by (simp add: Inr sg r cmp l(1)[unfolded Let_def])
  with l show ?thesis by simp
qed


lemma linear_fault_outcome:
  assumes "cfg_iterations cfg = Some n" and "randint_in_range R"
  shows "(\<forall>hm g'. linear_fault_generate_raw R w h cfg g = Inr (hm, g') \<longrightarrow>
            has_shape w h hm \<and> (\<forall>i<w. \<forall>j<h. \<exists>m\<le>nat n. hm ! i ! j = of_nat m)) \<and>
         (\<forall>e. linear_fault_generate_raw R w h cfg g = Inl e \<longrightarrow>
            e = NameError ''_LinearFaultStrategy__MODIFIER'')"
proof -
  define I where "I p st = (case st of (hm, g') \<Rightarrow>
      has_shape w h hm \<and> (\<forall>i<w. \<forall>j<h. \<exists>m\<le>length p. hm ! i ! j = of_nat m))"
    for p :: "int list" and st :: "heightmap \<times> 'a"
  have "(\<forall>s'. for_each (py_range n) (\<lambda>k. fault_iteration R w h) (zeros w h, g) = Inr s'
            \<longrightarrow> I (py_range n) s') \<and>
        (\<forall>e. for_each (py_range n) (\<lambda>k. fault_iteration R w h) (zeros w h, g) = Inl e
            \<longrightarrow> e = NameError ''_LinearFaultStrategy__MODIFIER'')"
  proof (rule for_each_partial)
    show "I [] (zeros w h, g)"
      by (simp add: I_def has_shape_zeros nth_zeros)
  next
    fix p x q t t'
    assume "py_range n = p @ x # q" and inv: "I p t" and step: "fault_iteration R w h t = Inr t'"
    obtain hm g1 where t: "t = (hm, g1)" by (cases t)
    obtain hm' g2 where t': "t' = (hm', g2)" by (cases t')
    from inv have shape: "has_shape w h hm"
      and cells: "\<And>i j. i < w \<Longrightarrow> j < h \<Longrightarrow> \<exists>m\<le>length p. hm ! i ! j = of_nat m"
      unfolding I_def t by simp_all
    from fault_iteration_outcome[OF shape assms(2), of g1] step
    have shape': "has_shape w h hm'"
      and step_cells: "\<And>i j. i < w \<Longrightarrow> j < h \<Longrightarrow>
             hm' ! i ! j = hm ! i ! j \<or> hm' ! i ! j = hm ! i ! j + 1"
      unfolding t t' by simp_all
    have "\<exists>m\<le>Suc (length p). hm' ! i ! j = of_nat m" if "i < w" "j < h" for i j
    proof -
      from cells[OF that] obtain m where m: "m \<le> length p" "hm ! i ! j = of_nat m" by blast
      from step_cells[OF that] show ?thesis
      proof
        assume "hm' ! i ! j = hm ! i ! j"
        with m show ?thesis by (intro exI[of _ m]) simp
      next
        assume "hm' ! i ! j = hm ! i ! j + 1"
        with m show ?thesis by (intro exI[of _ "Suc m"]) simp
      qed
    qed
    with shape' show "I (p @ [x]) t'" unfolding I_def t' by simp
  next
    fix p x q t e
    assume inv: "I p t" and step: "fault_iteration R w h t = Inl e"
    obtain hm g1 where t: "t = (hm, g1)" by (cases t)
    from inv have "has_shape w h hm" unfolding I_def t by simp
    from fault_iteration_outcome[OF this assms(2), of g1] step
    show "e = NameError ''_LinearFaultStrategy__MODIFIER''" unfolding t by simp
  qed
  then show ?thesis
    unfolding linear_fault_generate_raw_def assms(1) I_def
    by (simp add: py_range_def)
qed

text \<open>
  C9. The raw generation of the linear-fault strategy with \<open>iterations = n\<close>,
  \<open>n \<ge> 0\<close>, for every generator whose \<^verbatim>\<open>randint(0, 4)\<close> is in range:
  whenever it returns a field, the field has the configured shape and every cell is an
  integer from 0 to \<open>n\<close>; the only error it can raise is the \<open>NameError\<close> of equal
  x-values; and with \<open>n = 0\<close> it returns the all-zero field whatever the generator.
\<close>

theorem linear_fault_raw_values:
  assumes "cfg_iterations cfg = Some n" and "0 \<le> n" and "randint_in_range R"
  shows "(\<forall>hm g'. linear_fault_generate_raw R w h cfg g = Inr (hm, g') \<longrightarrow>
            has_shape w h hm \<and>
            (\<forall>i<w. \<forall>j<h. \<exists>m. hm ! i ! j = of_int m \<and> 0 \<le> m \<and> m \<le> n)) \<and>
         (\<forall>e. linear_fault_generate_raw R w h cfg g = Inl e \<longrightarrow>
            e = NameError ''_LinearFaultStrategy__MODIFIER'') \<and>
         (n = 0 \<longrightarrow> linear_fault_generate_raw R w h cfg g = Inr (zeros w h, g))"
proof -
  note o = linear_fault_outcome[OF assms(1,3), of w h g]
  have "has_shape w h hm \<and> (\<forall>i<w. \<forall>j<h. \<exists>m. hm ! i ! j = of_int m \<and> 0 \<le> m \<and> m \<le> n)"
    if r: "linear_fault_generate_raw R w h cfg g = Inr (hm, g')" for hm g'
  proof -
    from o r have shape: "has_shape w h hm"
      and cells: "\<And>i j. i < w \<Longrightarrow> j < h \<Longrightarrow> \<exists>m\<le>nat n. hm ! i ! j = of_nat m"
      by simp_all
    have "\<exists>m. hm ! i ! j = of_int m \<and> 0 \<le> m \<and> m \<le> n" if "i < w" "j < h" for i j
    proof -
      from cells[OF that] obtain m where "m \<le> nat n" "hm ! i ! j = of_nat m" by blast
      then show ?thesis using assms(2) by (intro exI[of _ "int m"]) simp
    qed
    with shape show ?thesis by simp
  qed
  moreover have "n = 0 \<longrightarrow> linear_fault_generate_raw R w h cfg g = Inr (zeros w h, g)"
    by (simp add: linear_fault_generate_raw_def assms(1) py_range_def)
  ultimately show ?thesis using o by blast
qed

lemma randint_in_range_replay: "randint_in_range (replay_rng draws)"
  by (simp add: randint_in_range_def replay_rng_def)

theorem linear_fault_raw_values_witness:
  "cfg_iterations (example_config\<lparr>cfg_iterations := Some 5\<rparr>) = Some 5 \<and>
   randint_in_range (replay_rng example_draws) \<and>
   linear_fault_generate_raw (replay_rng example_draws) 4 3
       (example_config\<lparr>cfg_iterations := Some 5\<rparr>) 0
     = Inr ([[3, 3, 3], [3, 3, 3], [2, 3, 3], [2, 2, 3]], 25) \<and>
   has_shape 4 3 [[3, 3, 3], [3, 3, 3], [2, 3, 3], [2, 2, 3]] \<and>
   (\<exists>m. [[3, 3, 3], [3, 3, 3], [2, 3, 3], [2, 2, 3 :: rat]] ! 3 ! 1 = of_int m \<and> 0 \<le> m \<and> m \<le> 5) \<and>
   linear_fault_generate_raw (replay_rng example_draws) 4 3
       (example_config\<lparr>cfg_iterations := Some 0\<rparr>) 0
     = Inr (zeros 4 3, 0)"
proof -
  have c: "cfg_iterations (example_config\<lparr>cfg_iterations := Some 5\<rparr>) = Some 5" by simp
  have c0: "cfg_iterations (example_config\<lparr>cfg_iterations := Some 0\<rparr>) = Some 0" by simp
  have r: "randint_in_range (replay_rng example_draws)" by (rule randint_in_range_replay)
  have run: "linear_fault_generate_raw (replay_rng example_draws) 4 3
       (example_config\<lparr>cfg_iterations := Some 5\<rparr>) 0
     = Inr ([[3, 3, 3], [3, 3, 3], [2, 3, 3], [2, 2, 3]], 25)"
    by code_simp
  from linear_fault_raw_values[OF c _ r, of 4 3 0] run
  have "has_shape 4 3 [[3, 3, 3], [3, 3, 3], [2, 3, 3], [2, 2, 3]]"
    and "\<forall>i<4. \<forall>j<3. \<exists>m. [[3, 3, 3], [3, 3, 3], [2, 3, 3], [2, 2, 3 :: rat]] ! i ! j = of_int m
            \<and> 0 \<le> m \<and> m \<le> 5"
    by simp_all
  moreover from this(2)
  have "\<exists>m. [[3, 3, 3], [3, 3, 3], [2, 3, 3], [2, 2, 3 :: rat]] ! 3 ! 1 = of_int m \<and> 0 \<le> m \<and> m \<le> 5"
    by (elim allE[of _ 3] allE[of _ 1]) simp
  moreover from linear_fault_raw_values[OF c0 _ r, of 4 3 0]
  have "linear_fault_generate_raw (replay_rng example_draws) 4 3
       (example_config\<lparr>cfg_iterations := Some 0\<rparr>) 0 = Inr (zeros 4 3, 0)"
    by simp
  ultimately show ?thesis using c r run by blast
qed

section \<open>The pipeline\<close>

lemma length_rand_row: "length (fst (rand_row R n g)) = n"
proof (induction n arbitrary: g)
  case 0
  show ?case by simp
next
  case (Suc n)
  obtain x g1 where x: "rnd_random R g = (x, g1)" by (cases "rnd_random R g")
  obtain xs g2 where xs: "rand_row R n g1 = (xs, g2)" by (cases "rand_row R n g1")
  have "length xs = n" using Suc[of g1] xs by simp
  then show ?case by (simp add: x xs)
qed

lemma has_shape_rand: "has_shape w h (fst (rand R w h g))"
proof (induction w arbitrary: g)
  case 0
  show ?case by (simp add: has_shape_def)
next
  case (Suc w)
  obtain row g1 where r: "rand_row R h g = (row, g1)" by (cases "rand_row R h g")
  obtain rows g2 where rs: "rand R w h g1 = (rows, g2)" by (cases "rand R w h g1")
  have "length row = h" using length_rand_row[of R h g] r by simp
  moreover have "has_shape w h rows" using Suc[of g1] rs by simp
  ultimately show ?case by (simp add: r rs has_shape_def)
qed

text \<open>
  A weighted average of integers from 0 to \<open>L\<close> lies between 0 and \<open>L\<close>, and so
  does its rounding: the erosion keeps the cells inside the range of the groups.
\<close>

lemma get_neighbors_weight:
  assumes "((k, l), wt) \<in> set (get_neighbors pt shape)"
  shows "wt = 1 \<or> wt = 2"
proof -
  obtain x y where pt: "pt = (x, y)" by (cases pt)
  obtain w h where shape: "shape = (w, h)" by (cases shape)
  from assms have "((k, l), wt) \<in> set
          [((x - 1, y), 1), ((x - 1, y - 1), 1), ((x - 1, y + 1), 1),
           ((x, y), 2), ((x, y - 1), 1), ((x, y + 1), 1),
           ((x + 1, y), 1), ((x + 1, y - 1), 1), ((x + 1, y + 1), 1)]"
    unfolding get_neighbors_def pt shape prod.case set_filter by blast
  then show ?thesis by auto
qed

lemma weighted_sum_bounds:
  fixes v :: "(int \<times> int) \<times> int \<Rightarrow> rat"
  assumes "\<forall>n \<in> set ns. 0 \<le> snd n \<and> 0 \<le> v n \<and> v n \<le> L"
  shows "0 \<le> sum_list (map (\<lambda>n. v n * of_int (snd n)) ns) \<and>
         sum_list (map (\<lambda>n. v n * of_int (snd n)) ns) \<le> L * of_int (sum_list (map snd ns))"
  using assms
proof (induction ns)
  case Nil
  show ?case by simp
next
  case (Cons n ns)
  from Cons.prems have b: "0 \<le> snd n" "0 \<le> v n" "v n \<le> L" by simp_all
  have "0 \<le> v n * of_int (snd n)" using b by simp
  moreover have "v n * of_int (snd n) \<le> L * of_int (snd n)"
    using b by (intro mult_right_mono) simp_all
  moreover have "0 \<le> sum_list (map (\<lambda>n. v n * of_int (snd n)) ns) \<and>
         sum_list (map (\<lambda>n. v n * of_int (snd n)) ns) \<le> L * of_int (sum_list (map snd ns))"
    using Cons by simp
  ultimately show ?case by (simp add: algebra_simps)
qed

lemma neighbor_average_bounds:
  assumes "group_field w h L a" "i < w" "j < h"
  shows "0 \<le> neighbor_average w h a i j \<and> neighbor_average w h a i j \<le> of_int L"
proof -
  let ?ns = "get_neighbors (int i, int j) (int w, int h)"
  let ?v = "\<lambda>n :: (int \<times> int) \<times> int. a ! nat (fst (fst n)) ! nat (snd (fst n))"
  let ?S = "sum_list (map (\<lambda>n. ?v n * of_int (snd n)) ?ns)"
  let ?W = "sum_list (map snd ?ns)"
  have "\<forall>n \<in> set ?ns. 0 \<le> snd n \<and> 0 \<le> ?v n \<and> ?v n \<le> of_int L"
  proof
    fix n assume n: "n \<in> set ?ns"
    obtain k l wt where nk: "n = ((k, l), wt)" by (cases n) auto
    from get_neighbors_weight[OF n[unfolded nk]] have "0 \<le> wt" by auto
    moreover from get_neighbors_in_bounds[OF n[unfolded nk]] have "nat k < w" "nat l < h"
      by (auto simp: nat_less_iff)
    with assms(1) obtain m where "a ! nat k ! nat l = of_int m" "0 \<le> m" "m \<le> L"
      unfolding group_field_def by blast
    ultimately show "0 \<le> snd n \<and> 0 \<le> ?v n \<and> ?v n \<le> of_int L"
      by (simp add: nk)
  qed
  from weighted_sum_bounds[of ?ns ?v "of_int L", OF this]
  have S: "0 \<le> ?S" "?S \<le> of_int L * of_int ?W" by simp_all
  have "0 < ?W" using neighbor_weights_pos[OF assms(2,3)] by (simp add: case_prod_unfold)
  then have W: "(0::rat) < of_int ?W" by simp
  have "0 \<le> ?S / of_int ?W" using S(1) W by simp
  moreover have "?S / of_int ?W \<le> of_int L"
    using S(2) W by (simp add: pos_divide_le_eq)
  ultimately show ?thesis
    unfolding neighbor_average_def Let_def by (simp add: case_prod_unfold)
qed

lemma group_field_erode:
  assumes "group_field w h L a"
  shows "group_field w h L (erode w h a)"
proof -
  have "\<exists>m. erode w h a ! i ! j = of_int m \<and> 0 \<le> m \<and> m \<le> L" if "i < w" "j < h" for i j
  proof -
    from neighbor_average_bounds[OF assms that]
    have "of_int 0 \<le> neighbor_average w h a i j" "neighbor_average w h a i j \<le> of_int L"
      by simp_all
    from py_round_bounds[OF this] show ?thesis
      using that by (intro exI[of _ "py_round (neighbor_average w h a i j)"]) (simp add: nth_erode)
  qed
  then show ?thesis unfolding group_field_def by (simp add: has_shape_erode)
qed

lemma group_field_erode_pow:
  "group_field w h L a \<Longrightarrow> group_field w h L ((erode w h ^^ n) a)"
  by (induction n) (simp_all add: group_field_erode)

lemma find_group_le:
  "(case find_group x ts 0 of Some k \<Rightarrow> k | None \<Rightarrow> length ts) \<le> length ts"
  using find_group_Some[of x ts 0] by (auto split: option.split)

text \<open>
  The three stages after the raw generation return on every field of the configured
  shape, when the thresholds are present.
\<close>

lemma postprocessing_outcome:
  assumes "cfg_thresholds cfg = Some (Some ts)" and "has_shape w h hm0"
  shows "\<exists>hm. rbind (calc_percentiles hm0) (\<lambda>hm.
              rbind (calc_groups cfg hm) (\<lambda>hm. smooth w h cfg hm)) = Inr hm \<and>
            group_field w h (int (length ts)) hm"
proof -
  from calc_percentiles_cells[OF assms(2)] obtain hm1 where
    p: "calc_percentiles hm0 = Inr hm1" "has_shape w h hm1" by blast
  from calc_groups_cells[OF assms(1) p(2)] obtain hm2 where
    g: "calc_groups cfg hm1 = Inr hm2" "has_shape w h hm2"
    and c: "\<And>i j. i < w \<Longrightarrow> j < h \<Longrightarrow> hm2 ! i ! j =
        of_nat (case find_group (hm1 ! i ! j) ts 0 of Some k \<Rightarrow> k | None \<Rightarrow> length ts)"
    by blast
  have "\<exists>m. hm2 ! i ! j = of_int m \<and> 0 \<le> m \<and> m \<le> int (length ts)" if "i < w" "j < h" for i j
    using c[OF that] find_group_le[where x = "hm1 ! i ! j" and ts = ts]
    by (intro exI[of _ "int (case find_group (hm1 ! i ! j) ts 0 of Some k \<Rightarrow> k | None \<Rightarrow> length ts)"])
       simp
  with g(2) have gf: "group_field w h (int (length ts)) hm2" unfolding group_field_def by simp
  have "group_field w h (int (length ts))
          (case cfg_erosion cfg of None \<Rightarrow> hm2 | Some e \<Rightarrow> (erode w h ^^ nat e) hm2)"
    using gf by (simp add: group_field_erode_pow split: option.split)
  then show ?thesis
    using p(1) g(1) smooth_erode[OF g(2), of cfg] by simp
qed

text \<open>
  C5. For every configuration with a thresholds list present and the parameters of the
  strategy present (\<^verbatim>\<open>iterations\<close> for the linear-fault strategy), every width
  and height, and every generator whose \<^verbatim>\<open>randint(0, 4)\<close> is in range: the
  height map that the pipeline returns has exactly \<open>width * height\<close> cells, in
  \<open>width\<close> rows of \<open>height\<close> cells, and every cell is an integer from 0 to the
  number of thresholds. The pipeline returns such a field for the base class and the
  random strategy always, and for the linear-fault strategy unless the raw generation
  raises the \<open>NameError\<close> of equal x-values.
\<close>

theorem generate_returns_groups:
  assumes "cfg_thresholds cfg = Some (Some ts)"
    and "strat = LinearFaultStrategy \<longrightarrow> cfg_iterations cfg \<noteq> None"
    and "randint_in_range R"
  shows "(\<forall>hm. generate R strat w h cfg g = Inr hm \<longrightarrow>
            has_shape w h hm \<and> length (concat hm) = w * h \<and>
            (\<forall>i<w. \<forall>j<h. \<exists>m. hm ! i ! j = of_int m \<and> 0 \<le> m \<and> m \<le> int (length ts))) \<and>
         (\<forall>e. generate R strat w h cfg g = Inl e \<longrightarrow>
            strat = LinearFaultStrategy \<and> e = NameError ''_LinearFaultStrategy__MODIFIER'')"
proof (cases "generate_raw R strat w h cfg (init R cfg g)")
  case (Inl e)
  then have lf: "strat = LinearFaultStrategy"
    by (cases strat) (simp_all add: generate_raw_def)
  with assms(2) obtain n where n: "cfg_iterations cfg = Some n" by auto
  from Inl lf linear_fault_outcome[OF n assms(3), of w h "init R cfg g"]
  have "e = NameError ''_LinearFaultStrategy__MODIFIER''"
    by (simp add: generate_raw_def)
  with Inl lf show ?thesis by (simp add: generate_def)
next
  case (Inr r)
  obtain hm0 g1 where r: "r = (hm0, g1)" by (cases r)
  have shape: "has_shape w h hm0"
  proof (cases strat)
    case GenerationStrategy
    with Inr r show ?thesis by (auto simp: generate_raw_def has_shape_zeros)
  next
    case RandomStrategy
    with Inr r has_shape_rand[of w h R "init R cfg g"] show ?thesis
      by (auto simp: generate_raw_def)
  next
    case LinearFaultStrategy
    with assms(2) obtain n where n: "cfg_iterations cfg = Some n" by auto
    from Inr r LinearFaultStrategy linear_fault_outcome[OF n assms(3), of w h "init R cfg g"]
    show ?thesis by (simp add: generate_raw_def)
  qed
  from postprocessing_outcome[OF assms(1) shape] obtain hm where
    hm: "rbind (calc_percentiles hm0) (\<lambda>hm.
              rbind (calc_groups cfg hm) (\<lambda>hm. smooth w h cfg hm)) = Inr hm"
    "group_field w h (int (length ts)) hm" by blast
  have "generate R strat w h cfg g = Inr hm"
    unfolding generate_def Inr r using hm(1) by simp
  with hm(2) show ?thesis
    unfolding group_field_def by (simp add: length_concat_shape)
qed

theorem generate_returns_groups_witness:
  "cfg_thresholds (example_config\<lparr>cfg_iterations := Some 5, cfg_erosion := Some 1\<rparr>)
     = Some (Some [3 / 10, 6 / 10, 1]) \<and>
   randint_in_range (replay_rng example_draws) \<and>
   generate (replay_rng example_draws) LinearFaultStrategy 4 3
       (example_config\<lparr>cfg_iterations := Some 5, cfg_erosion := Some 1\<rparr>) 0
     = Inr [[1, 1, 1], [1, 1, 1], [0, 1, 1], [0, 0, 1]] \<and>
   has_shape 4 3 [[1, 1, 1], [1, 1, 1], [0, 1, 1], [0, 0, 1]] \<and>
   length (concat [[1, 1, 1], [1, 1, 1], [0, 1, 1], [0, 0, 1 :: rat]]) = 4 * 3 \<and>
   (\<exists>m. [[1, 1, 1], [1, 1, 1], [0, 1, 1], [0, 0, 1 :: rat]] ! 2 ! 0 = of_int m \<and> 0 \<le> m \<and> m \<le> 3)"
proof -
  let ?cfg = "example_config\<lparr>cfg_iterations := Some 5, cfg_erosion := Some 1\<rparr>"
  have c: "cfg_thresholds ?cfg = Some (Some [3 / 10, 6 / 10, 1])"
    by (simp add: example_config_def)
  have i: "LinearFaultStrategy = LinearFaultStrategy \<longrightarrow> cfg_iterations ?cfg \<noteq> None" by simp
  have r: "randint_in_range (replay_rng example_draws)" by (rule randint_in_range_replay)
  have run: "generate (replay_rng example_draws) LinearFaultStrategy 4 3 ?cfg 0
     = Inr [[1, 1, 1], [1, 1, 1], [0, 1, 1], [0, 0, 1]]"
    by code_simp
  from generate_returns_groups[OF c i r, of 4 3 0] run
  have "has_shape 4 3 [[1, 1, 1], [1, 1, 1], [0, 1, 1], [0, 0, 1]]"
    and "length (concat [[1, 1, 1], [1, 1, 1], [0, 1, 1], [0, 0, 1 :: rat]]) = 4 * 3"
    and "\<forall>i<4. \<forall>j<3. \<exists>m. [[1, 1, 1], [1, 1, 1], [0, 1, 1], [0, 0, 1 :: rat]] ! i ! j = of_int m
            \<and> 0 \<le> m \<and> m \<le> int (length [3 / 10, 6 / 10, 1 :: rat])"
    by simp_all
  moreover from this(3)
  have "\<exists>m. [[1, 1, 1], [1, 1, 1], [0, 1, 1], [0, 0, 1 :: rat]] ! 2 ! 0 = of_int m \<and> 0 \<le> m \<and> m \<le> 3"
    by (elim allE[of _ 2] allE[of _ 0]) simp
  ultimately show ?thesis using c r run by blast
qed

section \<open>Where the errors are raised\<close>

text \<open>
  The linear-fault strategy without \<^verbatim>\<open>iterations\<close> raises its own exception
  before the first draw.
\<close>

lemma iterations_absent:
  "cfg_iterations cfg = None \<Longrightarrow>
   generate R LinearFaultStrategy w h cfg g =
     Inl (Exception ''Config parameter 'iterations' missing for linear fault generator'')"
  by (simp add: generate_def generate_raw_def linear_fault_generate_raw_def)

text \<open>
  The grouping stage raises its own exception only for a \<^verbatim>\<open>thresholds\<close> key
  that is present with the value \<^verbatim>\<open>None\<close>; an absent key is a \<open>KeyError\<close>.
  Either way no cell has been grouped.
\<close>

lemma thresholds_null:
  "cfg_thresholds cfg = Some None \<Longrightarrow>
   calc_groups cfg hm = Inl (Exception ''The config parameter 'thresholds' must be set.'')"
  by (simp add: calc_groups_def)

lemma thresholds_absent:
  "cfg_thresholds cfg = None \<Longrightarrow> calc_groups cfg hm = Inl (KeyError ''thresholds'')"
  by (simp add: calc_groups_def)

text \<open>
  The line through two drawn points: a \<open>NameError\<close> exactly when the two x-values
  are equal, and the slope and intercept of the source otherwise.
\<close>

lemma random_straight_cases:
  assumes "rnd_random R g = (r1, g1)" "rnd_random R g1 = (r2, g2)"
    and "rnd_random R g2 = (r3, g3)" "rnd_random R g3 = (r4, g4)"
  shows "random_straight R w h g =
     (if r1 * of_nat w = r3 * of_nat w then Inl (NameError ''_LinearFaultStrategy__MODIFIER'')
      else Inr (((r2 * of_nat h - r4 * of_nat h) / (r1 * of_nat w - r3 * of_nat w),
                 r2 * of_nat h
                   - (r2 * of_nat h - r4 * of_nat h) / (r1 * of_nat w - r3 * of_nat w)
                       * (r1 * of_nat w)), g4))"
  using assms by (simp add: random_straight_def Let_def)

text \<open>
  C2 (the code at the failing input). Width and height 4; the four draws are 0.5, 0.25,
  0.5, 0.75, so both points have the x-coordinate 2. The computation of the line
  parameters raises \<open>NameError\<close> where the perturbation was meant to happen, and
  returns no line.
\<close>

theorem random_straight_equal_x:
  "random_straight (replay_rng [1 / 2, 1 / 4, 1 / 2, 3 / 4]) 4 4 0
     = Inl (NameError ''_LinearFaultStrategy__MODIFIER'')"
  by code_simp

text \<open>
  C8 (the code at the failing input). A configuration without the key
  \<^verbatim>\<open>thresholds\<close>: the grouping stage fails at the dictionary lookup with
  \<open>KeyError\<close>, before it reaches its own test and its own
  \<^verbatim>\<open>raise Exception("The config parameter 'thresholds' must be set.")\<close>.
\<close>

theorem thresholds_absent_KeyError:
  "generate (replay_rng [1 / 2, 1 / 4, 1 / 2, 3 / 4]) RandomStrategy 2 2
     (example_config\<lparr>cfg_thresholds := None\<rparr>) 0 = Inl (KeyError ''thresholds'')"
  by code_simp

end
